theory Spec2Isabelle
  imports Complex_Main "HOL-Library.Sublist" "HOL-Library.AList"
begin

section \<open>Python strings\<close>

text \<open>
  A Python \<open>str\<close> is modelled as a \<open>string\<close>, a list of characters, each standing for the
  code point of the same number (so the model covers texts whose code points lie below 256,
  and \<open>length\<close> is Python's \<open>len\<close> there). \<open>str.isspace\<close>, \<open>str.lower\<close>, \<open>str.strip\<close>,
  \<open>str.split()\<close>, \<open>str.split('\n')\<close> and \<open>'\n'.join\<close> are written out on that range.
  The test \<open>k in w\<close> on two strings is \<^const>\<open>sublist\<close>.
\<close>

definition py_isspace :: "char \<Rightarrow> bool" where
  "py_isspace c = (of_char c \<in> {9, 10, 11, 12, 13, 28, 29, 30, 31, 32, 133, 160 :: nat})"

definition py_lower_char :: "char \<Rightarrow> char" where
  "py_lower_char c =
     (let n = (of_char c :: nat)
      in if (65 \<le> n \<and> n \<le> 90) \<or> (192 \<le> n \<and> n \<le> 222 \<and> n \<noteq> 215)
         then char_of (n + 32) else c)"

definition py_lower :: "string \<Rightarrow> string" where
  "py_lower s = map py_lower_char s"

definition py_lstrip :: "string \<Rightarrow> string" where
  "py_lstrip s = dropWhile py_isspace s"

definition py_rstrip :: "string \<Rightarrow> string" where
  "py_rstrip s = rev (dropWhile py_isspace (rev s))"

definition py_strip :: "string \<Rightarrow> string" where
  "py_strip s = py_rstrip (py_lstrip s)"



text \<open>\<open>s.split('\n')\<close>: the pieces between newlines; never empty, \<open>''.split('\n') = ['']\<close>.\<close>

fun split_nl :: "string \<Rightarrow> string list" where
  "split_nl [] = [[]]"
| "split_nl (c # cs) =
     (if c = CHR ''\<newline>'' then [] # split_nl cs
      else (case split_nl cs of [] \<Rightarrow> [[c]] | l # ls \<Rightarrow> (c # l) # ls))"

text \<open>\<open>'\n'.join(ls)\<close>.\<close>

fun join_nl :: "string list \<Rightarrow> string" where
  "join_nl [] = []"
| "join_nl [l] = l"
| "join_nl (l # m # ls) = l @ CHR ''\<newline>'' # join_nl (m # ls)"

section \<open>Numbers and their formatting\<close>

text \<open>
  Scores are Python numbers; the model computes with them as exact reals, so the binary
  rounding of a float operation is left out. The format \<open>{x:.1f}\<close> and \<open>round(x, 2)\<close>
  round the exact value to the nearest decimal, ties to even.
\<close>

definition round_half_even :: "real \<Rightarrow> int" where
  "round_half_even x =
     (let f = \<lfloor>x\<rfloor>; d = x - of_int f
      in if d < 1 / 2 then f else if 1 / 2 < d then f + 1
         else if even f then f else f + 1)"

definition digit_char :: "nat \<Rightarrow> char" where
  "digit_char d = ''0123456789'' ! d"

function show_nat :: "nat \<Rightarrow> string" where
  "show_nat n = (if n < 10 then [digit_char n] else show_nat (n div 10) @ [digit_char (n mod 10)])"
  by pat_completeness auto
termination
  by (relation "measure id") auto

declare show_nat.simps [simp del]

definition format_1f :: "real \<Rightarrow> string" where
  "format_1f x =
     (let n = nat (round_half_even (\<bar>x\<bar> * 10))
      in (if x < 0 then ''-'' else '''') @ show_nat (n div 10) @ ''.'' @ [digit_char (n mod 10)])"


section \<open>Score comparison\<close>

text \<open>
  The three headline messages of \<open>compare_scores\<close> start with an emoji (U+1F31F, U+2705,
  U+1F44D), beyond the character range of the model; each is written as its UTF-8 bytes.
\<close>

definition emoji_star :: string where
  "emoji_star = [CHR 0xF0, CHR 0x9F, CHR 0x8C, CHR 0x9F]"

definition emoji_check :: string where
  "emoji_check = [CHR 0xE2, CHR 0x9C, CHR 0x85]"

definition emoji_thumbs_up :: string where
  "emoji_thumbs_up = [CHR 0xF0, CHR 0x9F, CHR 0x91, CHR 0x8D]"

definition compare_scores :: "real \<Rightarrow> real \<Rightarrow> string list" where
  "compare_scores original_score enhanced_score =
     (let diff = enhanced_score - original_score;
          percentage_improvement =
            (if original_score > 0 then diff / original_score * 100 else 0)
      in if diff > 30 then
           [emoji_star @ '' Excellent improvement! Score increased by '' @ format_1f diff
              @ '' points ('' @ format_1f percentage_improvement @ ''%)'',
            ''Your resume is now highly optimized for ATS systems'']
         else if diff > 15 then
           [emoji_check @ '' Great improvement! Score increased by '' @ format_1f diff
              @ '' points'',
            ''Resume is much more ATS-compatible now'']
         else if diff > 5 then
           [emoji_thumbs_up @ '' Good improvement! Score increased by '' @ format_1f diff
              @ '' points'',
            ''Resume quality has been enhanced'']
         else if diff \<ge> 0 then
           [''Score adjusted by '' @ format_1f diff @ '' points'']
         else
           [''Score maintained from original version''])"

section \<open>Keyword density\<close>


section \<open>Exceptions and JSON values\<close>

text \<open>
  A call that can raise returns \<open>exn + 'a\<close>, \<open>Inl\<close> the exception. Only exceptions
  derived from Python's \<open>Exception\<close> are modelled, the ones an \<open>except Exception\<close> clause
  catches. Logging calls do not raise and are left out.
\<close>

datatype exn = JSONDecodeError | AttributeError | TypeError | OtherException

text \<open>
  The values \<open>json.loads\<close> builds. An object is the list of its items in insertion order,
  a float is kept as the text of its literal.
\<close>

datatype json =
    JNull
  | JBool bool
  | JInt int
  | JFloat string
  | JString string
  | JArray "json list"
  | JObject "(string \<times> json) list"

text \<open>\<open>d.get(key, default)\<close>: only a dict has the method.\<close>

definition dict_get :: "json \<Rightarrow> string \<Rightarrow> json \<Rightarrow> exn + json" where
  "dict_get d key dflt =
     (case d of
        JObject items \<Rightarrow> Inr (case map_of items key of Some v \<Rightarrow> v | None \<Rightarrow> dflt)
      | _ \<Rightarrow> Inl AttributeError)"

text \<open>\<open>len(v)\<close>: numbers, booleans and \<open>None\<close> have no length.\<close>

definition py_len :: "json \<Rightarrow> exn + nat" where
  "py_len v =
     (case v of
        JArray xs \<Rightarrow> Inr (length xs)
      | JObject items \<Rightarrow> Inr (length items)
      | JString s \<Rightarrow> Inr (length s)
      | _ \<Rightarrow> Inl TypeError)"

section \<open>Regular expressions\<close>

text \<open>
  The fragment of Python's \<open>re\<close> that the repository's patterns use, always with
  \<open>re.DOTALL\<close>: a literal, \<open>\s+\<close>, \<open>.*\<close>, \<open>.*?\<close>, \<open>$\<close>, concatenation, alternation, the
  capturing group 1 and the lookahead \<open>(?=...)\<close>. \<open>rx_run\<close> is the backtracking matcher:
  from an input suffix and the text of group 1 so far it lists, in the order in which
  backtracking tries them, the ways the pattern can match there, each as the suffix left
  over and the group. The flag says whether \<open>re.IGNORECASE\<close> is set.
\<close>

datatype rx =
    Lit string
  | Spaces1
  | AnyStar
  | AnyLazy
  | Eos
  | Cat rx rx
  | Or rx rx
  | Group rx
  | Ahead rx

fun tails :: "'a list \<Rightarrow> 'a list list" where
  "tails [] = [[]]"
| "tails (c # cs) = (c # cs) # tails cs"

fun space_tails :: "string \<Rightarrow> string list" where
  "space_tails [] = []"
| "space_tails (c # cs) = (if py_isspace c then cs # space_tails cs else [])"

definition lit_match :: "bool \<Rightarrow> string \<Rightarrow> string \<Rightarrow> bool" where
  "lit_match ic w s =
     (if ic then py_lower (take (length w) s) = py_lower w else prefix w s)"

fun rx_run :: "bool \<Rightarrow> rx \<Rightarrow> string \<times> string option \<Rightarrow> (string \<times> string option) list" where
  "rx_run ic (Lit w) (s, g) = (if lit_match ic w s then [(drop (length w) s, g)] else [])"
| "rx_run ic Spaces1 (s, g) = map (\<lambda>t. (t, g)) (rev (space_tails s))"
| "rx_run ic AnyStar (s, g) = map (\<lambda>t. (t, g)) (rev (tails s))"
| "rx_run ic AnyLazy (s, g) = map (\<lambda>t. (t, g)) (tails s)"
| "rx_run ic Eos (s, g) = (if s = [] \<or> s = ''\<newline>'' then [(s, g)] else [])"
| "rx_run ic (Cat a b) st = concat (map (rx_run ic b) (rx_run ic a st))"
| "rx_run ic (Or a b) st = rx_run ic a st @ rx_run ic b st"
| "rx_run ic (Group a) (s, g) =
     map (\<lambda>(t, _). (t, Some (take (length s - length t) s))) (rx_run ic a (s, g))"
| "rx_run ic (Ahead a) (s, g) =
     (case rx_run ic a (s, g) of [] \<Rightarrow> [] | (_, g') # _ \<Rightarrow> [(s, g')])"

text \<open>
  \<open>re.search\<close>: the first way to match at the leftmost position that has one. The result
  is the pair of \<open>group(0)\<close> and \<open>group(1)\<close>, the latter \<open>None\<close> when group 1 took no part.
\<close>

fun re_search :: "bool \<Rightarrow> rx \<Rightarrow> string \<Rightarrow> (string \<times> string option) option" where
  "re_search ic r [] =
     (case rx_run ic r ([], None) of [] \<Rightarrow> None | (t, g) # _ \<Rightarrow> Some ([], g))"
| "re_search ic r (c # cs) =
     (case rx_run ic r (c # cs, None) of
        [] \<Rightarrow> re_search ic r cs
      | (t, g) # _ \<Rightarrow> Some (take (length (c # cs) - length t) (c # cs), g))"

fun alts :: "rx list \<Rightarrow> rx" where
  "alts [] = Lit []"
| "alts [r] = r"
| "alts (r # rs) = Or r (alts rs)"

text \<open>\<open>a\s+b\<close> for two words.\<close>

definition phrase :: "string \<Rightarrow> string \<Rightarrow> rx" where
  "phrase a b = Cat (Lit a) (Cat Spaces1 (Lit b))"

text \<open>The patterns \<open>\{.*\}\<close> and \<open>\[.*\]\<close> of the services.\<close>

definition json_object_rx :: rx where
  "json_object_rx = Cat (Lit ''{'') (Cat AnyStar (Lit ''}''))"

definition json_array_rx :: rx where
  "json_array_rx = Cat (Lit ''['') (Cat AnyStar (Lit '']''))"

section \<open>The AI services\<close>

text \<open>
  The Gemini client and the \<open>json\<close> module are outside the repository, so the services
  take them as parameters: \<open>generate_content\<close> maps a prompt to the text of the response
  or to the exception that the call or the access to \<open>response.text\<close> raises, \<open>loads\<close> is
  \<open>json.loads\<close> and \<open>dumps\<close> is \<open>json.dumps\<close> with \<open>indent=2\<close>. The resume record comes from
  a decoded request body and is a JSON value.
\<close>

definition prompt_lines :: "string list \<Rightarrow> string" where
  "prompt_lines ls = concat (map (\<lambda>l. CHR ''\<newline>'' # l) ls)"

definition ats_prompt :: "string \<Rightarrow> string \<Rightarrow> string" where
  \<open>ats_prompt resume_text job_description =
     prompt_lines
      [''        You are an expert ATS (Applicant Tracking System) specialist. Analyze the following resume for ATS compatibility and provide a detailed analysis.'',
       ''        '',
       ''        IMPORTANT: Return ONLY valid JSON in your response, no extra text before or after.'',
       ''        '',
       ''        Resume Content:'',
       ''        ---'',
       ''        '' @ resume_text,
       ''        ---'',
       ''        '',
       ''        '' @ (if job_description \<noteq> [] then ''Target Job Description: ---'' @ job_description @ ''---'' else []),
       ''        '',
       ''        Provide analysis with the following JSON format ONLY:'',
       ''        {'',
       ''            "score": <number between 0 and 100>,'',
       ''            "missing_keywords": [<list of important keywords that should be included>],'',
       ''            "suggestions": [<list of specific, actionable improvement suggestions>],'',
       ''            "sections_analysis": {'',
       ''                "contact_info": {"score": <0-100>, "issues": [<list of issues or empty>]},'',
       ''                "experience": {"score": <0-100>, "issues": [<list of issues or empty>]},'',
       ''                "education": {"score": <0-100>, "issues": [<list of issues or empty>]},'',
       ''                "skills": {"score": <0-100>, "issues": [<list of issues or empty>]}'',
       ''            },'',
       ''            "summary": "<brief summary of ATS compatibility>"'',
       ''        }'',
       ''        '',
       ''        Rules:'',
       ''        - Score should be based on: formatting, structure, keyword optimization, ATS-friendly formatting'',
       ''        - Missing keywords should be industry-relevant and commonly searched'',
       ''        - Suggestions should be specific and actionable'',
       ''        - Return ONLY JSON, no markdown or extra text'',
       ''        '']\<close>

definition enhance_prompt :: "(json \<Rightarrow> string) \<Rightarrow> json \<Rightarrow> string \<Rightarrow> string" where
  \<open>enhance_prompt dumps resume_data job_description =
     prompt_lines
      [''        You are an expert resume writer and ATS optimization specialist. Enhance the provided resume to:'',
       ''        1. Improve grammar, syntax, and professional language'',
       ''        2. Optimize keywords for ATS systems'',
       ''        3. Make achievements more impactful using strong action verbs'',
       ''        4. Quantify results wherever possible'',
       ''        5. Maintain professional tone and readability'',
       ''        6. Highlight leadership and impact'',
       ''        '',
       ''        Resume Data to Enhance:'',
       ''        '' @ dumps resume_data,
       ''        '',
       ''        '' @ ''Target Job Description (for keyword optimization): '' @ job_description
         @ '' if job_description else No specific job description provided'',
       ''        '',
       ''        IMPORTANT: Return the enhanced resume in the same JSON structure as above, with improved content.'',
       ''        Preserve all fields and structure. Return ONLY valid JSON, no extra text.'',
       ''        '',
       ''        Enhanced Resume (JSON only):'',
       ''        '']\<close>

definition suggest_prompt :: "string \<Rightarrow> string" where
  \<open>suggest_prompt resume_text =
     prompt_lines
      [''        Analyze this resume and provide 5-7 specific, actionable improvement suggestions:'',
       ''        '',
       ''        '' @ resume_text,
       ''        '',
       ''        Suggestions should be:'',
       ''        - Specific and actionable'',
       ''        - Ranked by impact (most important first)'',
       ''        - Focused on ATS optimization and impact'',
       ''        - Practical to implement'',
       ''        '',
       ''        Return ONLY a JSON array of strings:'',
       ''        ["suggestion 1", "suggestion 2", ...]'',
       ''        '']\<close>

definition get_default_score :: json where
  "get_default_score =
     JObject
      [(''score'', JInt 65),
       (''missing_keywords'',
          JArray
           [JString ''achievement metrics'',
            JString ''action verbs'',
            JString ''relevant certifications'',
            JString ''quantifiable results'']),
       (''suggestions'',
          JArray
           [JString ''Add quantifiable achievements with numbers/percentages'',
            JString ''Use strong action verbs (Led, Developed, Implemented, etc.)'',
            JString ''Include relevant keywords from job description'',
            JString ''Ensure clear section headers (Experience, Education, Skills)'',
            JString ''Keep formatting simple and ATS-friendly (no tables or graphics)'']),
       (''sections_analysis'',
          JObject
           [(''contact_info'', JObject [(''score'', JInt 85), (''issues'', JArray [])]),
            (''experience'',
               JObject
                [(''score'', JInt 70),
                 (''issues'',
                    JArray
                     [JString ''Add more quantifiable results'',
                      JString ''Use stronger action verbs''])]),
            (''education'', JObject [(''score'', JInt 80), (''issues'', JArray [])]),
            (''skills'',
               JObject
                [(''score'', JInt 60),
                 (''issues'',
                    JArray
                     [JString ''Add more relevant technical skills'',
                      JString ''Include industry keywords''])])]),
       (''summary'',
          JString ''Resume has moderate ATS compatibility. Focus on quantifiable achievements and relevant keywords.'')]"

text \<open>
  Each service is a \<open>try\<close> block and its handlers: \<open>_attempt\<close> is the block, where an
  exception ends the evaluation, and the service maps what the block raised to the value
  its handler returns.
\<close>

definition calculate_ats_score_attempt ::
  "(string \<Rightarrow> exn + string) \<Rightarrow> (string \<Rightarrow> exn + json) \<Rightarrow> string \<Rightarrow> string \<Rightarrow> exn + json" where
  "calculate_ats_score_attempt generate_content loads resume_text job_description =
     (case generate_content (ats_prompt resume_text job_description) of
        Inl e \<Rightarrow> Inl e
      | Inr text \<Rightarrow>
          (let response_text = py_strip text
           in case re_search False json_object_rx response_text of
                Some json_match \<Rightarrow>
                  (case loads (fst json_match) of
                     Inl e \<Rightarrow> Inl e
                   | Inr result \<Rightarrow>
                       (case dict_get result ''score'' (JString ''N/A'') of
                          Inl e \<Rightarrow> Inl e
                        | Inr _ \<Rightarrow> Inr result))
              | None \<Rightarrow> Inr get_default_score))"

definition calculate_ats_score ::
  "(string \<Rightarrow> exn + string) \<Rightarrow> (string \<Rightarrow> exn + json) \<Rightarrow> string \<Rightarrow> string \<Rightarrow> exn + json" where
  "calculate_ats_score generate_content loads resume_text job_description =
     (case calculate_ats_score_attempt generate_content loads resume_text job_description of
        Inr result \<Rightarrow> Inr result
      | Inl JSONDecodeError \<Rightarrow> Inr get_default_score
      | Inl _ \<Rightarrow> Inr get_default_score)"

definition enhance_resume_content_attempt ::
  "(string \<Rightarrow> exn + string) \<Rightarrow> (string \<Rightarrow> exn + json) \<Rightarrow> (json \<Rightarrow> string) \<Rightarrow> json \<Rightarrow> string
     \<Rightarrow> exn + json" where
  "enhance_resume_content_attempt generate_content loads dumps resume_data job_description =
     (case generate_content (enhance_prompt dumps resume_data job_description) of
        Inl e \<Rightarrow> Inl e
      | Inr text \<Rightarrow>
          (let response_text = py_strip text
           in case re_search False json_object_rx response_text of
                Some json_match \<Rightarrow>
                  (case loads (fst json_match) of
                     Inl e \<Rightarrow> Inl e
                   | Inr enhanced_data \<Rightarrow> Inr enhanced_data)
              | None \<Rightarrow> Inr resume_data))"

definition enhance_resume_content ::
  "(string \<Rightarrow> exn + string) \<Rightarrow> (string \<Rightarrow> exn + json) \<Rightarrow> (json \<Rightarrow> string) \<Rightarrow> json \<Rightarrow> string
     \<Rightarrow> exn + json" where
  "enhance_resume_content generate_content loads dumps resume_data job_description =
     (case enhance_resume_content_attempt generate_content loads dumps resume_data
             job_description of
        Inr enhanced_data \<Rightarrow> Inr enhanced_data
      | Inl JSONDecodeError \<Rightarrow> Inr resume_data
      | Inl _ \<Rightarrow> Inr resume_data)"

definition canned_suggestions :: json where
  "canned_suggestions =
     JArray
      [JString ''Add more quantifiable achievements with metrics'',
       JString ''Use stronger action verbs for better impact'',
       JString ''Include relevant industry keywords'',
       JString ''Keep formatting simple and ATS-friendly'',
       JString ''Tailor content to target position'']"

definition suggest_improvements_attempt ::
  "(string \<Rightarrow> exn + string) \<Rightarrow> (string \<Rightarrow> exn + json) \<Rightarrow> string \<Rightarrow> exn + json" where
  "suggest_improvements_attempt generate_content loads resume_text =
     (case generate_content (suggest_prompt resume_text) of
        Inl e \<Rightarrow> Inl e
      | Inr text \<Rightarrow>
          (let response_text = py_strip text
           in case re_search False json_array_rx response_text of
                Some json_match \<Rightarrow>
                  (case loads (fst json_match) of
                     Inl e \<Rightarrow> Inl e
                   | Inr suggestions \<Rightarrow>
                       (case py_len suggestions of
                          Inl e \<Rightarrow> Inl e
                        | Inr _ \<Rightarrow> Inr suggestions))
              | None \<Rightarrow> Inr canned_suggestions))"

definition suggest_improvements ::
  "(string \<Rightarrow> exn + string) \<Rightarrow> (string \<Rightarrow> exn + json) \<Rightarrow> string \<Rightarrow> exn + json" where
  "suggest_improvements generate_content loads resume_text =
     (case suggest_improvements_attempt generate_content loads resume_text of
        Inr suggestions \<Rightarrow> Inr suggestions
      | Inl JSONDecodeError \<Rightarrow> Inr (JArray [])
      | Inl _ \<Rightarrow> Inr (JArray []))"

section \<open>A JSON decoder\<close>

text \<open>
  \<open>json_loads\<close> is a decoder for the concrete examples, written from the grammar that
  \<open>json.loads\<close> reads: whitespace is blank, tab, newline and carriage return; a value is a
  string, an object, an array, \<open>null\<close>, \<open>true\<close>, \<open>false\<close>, a number or one of \<open>NaN\<close>,
  \<open>Infinity\<close>, \<open>-Infinity\<close>; a repeated key keeps its first position and its last value;
  text after the value is an error. An escape \<open>\uXXXX\<close> gives the character of that code
  modulo 256, the range of the model. The recursion is bounded by the length of the text,
  which every nested value shortens. Every error is reported as \<open>JSONDecodeError\<close>.
\<close>

definition json_ws :: "char \<Rightarrow> bool" where
  "json_ws c = (c = CHR '' '' \<or> c = CHR 0x09 \<or> c = CHR ''\<newline>'' \<or> c = CHR 0x0D)"

definition skip_ws :: "string \<Rightarrow> string" where
  "skip_ws s = dropWhile json_ws s"

definition is_digit :: "char \<Rightarrow> bool" where
  "is_digit c = (c \<in> set ''0123456789'')"

definition digits_val :: "string \<Rightarrow> nat" where
  "digits_val ds = foldl (\<lambda>n c. 10 * n + (of_char c - 48)) 0 ds"

definition hex_val :: "char \<Rightarrow> nat option" where
  "hex_val c =
     (let n = (of_char c :: nat)
      in if 48 \<le> n \<and> n \<le> 57 then Some (n - 48)
         else if 65 \<le> n \<and> n \<le> 70 then Some (n - 55)
         else if 97 \<le> n \<and> n \<le> 102 then Some (n - 87)
         else None)"

definition hex4 :: "string \<Rightarrow> char option" where
  "hex4 ds =
     (case map hex_val ds of
        [Some a, Some b, Some c, Some d] \<Rightarrow> Some (char_of (((a * 16 + b) * 16 + c) * 16 + d))
      | _ \<Rightarrow> None)"

definition escape_char :: "char \<Rightarrow> char option" where
  "escape_char e =
     (if e = CHR 0x22 then Some (CHR 0x22)
      else if e = CHR 0x5C then Some (CHR 0x5C)
      else if e = CHR ''/'' then Some (CHR ''/'')
      else if e = CHR ''b'' then Some (CHR 0x08)
      else if e = CHR ''f'' then Some (CHR 0x0C)
      else if e = CHR ''n'' then Some (CHR ''\<newline>'')
      else if e = CHR ''r'' then Some (CHR 0x0D)
      else if e = CHR ''t'' then Some (CHR 0x09)
      else None)"

text \<open>The text of a string after its opening quote: the decoded string and what follows.\<close>

fun scan_string :: "nat \<Rightarrow> string \<Rightarrow> (string \<times> string) option" where
  "scan_string 0 s = None"
| "scan_string (Suc n) [] = None"
| "scan_string (Suc n) (c # cs) =
     (if c = CHR 0x22 then Some ([], cs)
      else if c = CHR 0x5C then
        (case cs of
           [] \<Rightarrow> None
         | e # es \<Rightarrow>
             if e = CHR ''u'' then
               (case hex4 (take 4 es) of
                  None \<Rightarrow> None
                | Some ch \<Rightarrow> map_option (apfst ((#) ch)) (scan_string n (drop 4 es)))
             else
               (case escape_char e of
                  None \<Rightarrow> None
                | Some ch \<Rightarrow> map_option (apfst ((#) ch)) (scan_string n es)))
      else if (of_char c :: nat) < 32 then None
      else map_option (apfst ((#) c)) (scan_string n cs))"

definition scan_exponent :: "string \<Rightarrow> string" where
  "scan_exponent s =
     (case s of
        [] \<Rightarrow> []
      | e # s1 \<Rightarrow>
          if e = CHR ''e'' \<or> e = CHR ''E'' then
            (let sign = (case s1 of
                           [] \<Rightarrow> []
                         | c # _ \<Rightarrow> if c = CHR ''+'' \<or> c = CHR ''-'' then [c] else []);
                 ds = takeWhile is_digit (drop (length sign) s1)
             in if ds = [] then [] else e # sign @ ds)
          else [])"

definition scan_number :: "string \<Rightarrow> (json \<times> string) option" where
  "scan_number s =
     (let sign = (if prefix ''-'' s then ''-'' else []);
          s1 = drop (length sign) s;
          int_digits = (if prefix ''0'' s1 then ''0'' else takeWhile is_digit s1);
          s2 = drop (length int_digits) s1;
          frac_digits = (if prefix ''.'' s2 then takeWhile is_digit (drop 1 s2) else []);
          frac = (if frac_digits = [] then [] else CHR ''.'' # frac_digits);
          s3 = drop (length frac) s2;
          ex = scan_exponent s3;
          s4 = drop (length ex) s3
      in if int_digits = [] then None
         else if frac = [] \<and> ex = [] then
           Some (JInt ((if sign = [] then 1 else - 1) * int (digits_val int_digits)), s4)
         else Some (JFloat (sign @ int_digits @ frac @ ex), s4))"

fun parse_value :: "nat \<Rightarrow> string \<Rightarrow> (json \<times> string) option"
  and parse_elements :: "nat \<Rightarrow> string \<Rightarrow> json list \<Rightarrow> (json \<times> string) option"
  and parse_members :: "nat \<Rightarrow> string \<Rightarrow> (string \<times> json) list \<Rightarrow> (json \<times> string) option"
where
  "parse_value 0 s = None"
| "parse_value (Suc n) s =
     (case s of
        [] \<Rightarrow> None
      | c # cs \<Rightarrow>
          if c = CHR 0x22 then map_option (apfst JString) (scan_string (Suc (length cs)) cs)
          else if c = CHR ''{'' then
            (case skip_ws cs of
               [] \<Rightarrow> None
             | d # ds \<Rightarrow> if d = CHR ''}'' then Some (JObject [], ds) else parse_members n (d # ds) [])
          else if c = CHR ''['' then
            (case skip_ws cs of
               [] \<Rightarrow> None
             | d # ds \<Rightarrow> if d = CHR '']'' then Some (JArray [], ds) else parse_elements n (d # ds) [])
          else if prefix ''null'' s then Some (JNull, drop 4 s)
          else if prefix ''true'' s then Some (JBool True, drop 4 s)
          else if prefix ''false'' s then Some (JBool False, drop 5 s)
          else
            (case scan_number s of
               Some r \<Rightarrow> Some r
             | None \<Rightarrow>
                 if prefix ''NaN'' s then Some (JFloat ''NaN'', drop 3 s)
                 else if prefix ''Infinity'' s then Some (JFloat ''Infinity'', drop 8 s)
                 else if prefix ''-Infinity'' s then Some (JFloat ''-Infinity'', drop 9 s)
                 else None))"
| "parse_elements 0 s acc = None"
| "parse_elements (Suc n) s acc =
     (case parse_value n s of
        None \<Rightarrow> None
      | Some (v, r) \<Rightarrow>
          (case skip_ws r of
             [] \<Rightarrow> None
           | c # r1 \<Rightarrow>
               if c = CHR '']'' then Some (JArray (acc @ [v]), r1)
               else if c = CHR '','' then parse_elements n (skip_ws r1) (acc @ [v])
               else None))"
| "parse_members 0 s acc = None"
| "parse_members (Suc n) s acc =
     (case s of
        [] \<Rightarrow> None
      | q # cs \<Rightarrow>
          if q \<noteq> CHR 0x22 then None
          else
            (case scan_string (Suc (length cs)) cs of
               None \<Rightarrow> None
             | Some (key, r) \<Rightarrow>
                 (case skip_ws r of
                    [] \<Rightarrow> None
                  | c # r1 \<Rightarrow>
                      if c \<noteq> CHR '':'' then None
                      else
                        (case parse_value n (skip_ws r1) of
                           None \<Rightarrow> None
                         | Some (v, r2) \<Rightarrow>
                             (case skip_ws r2 of
                                [] \<Rightarrow> None
                              | d # r3 \<Rightarrow>
                                  if d = CHR ''}'' then Some (JObject (AList.update key v acc), r3)
                                  else if d = CHR '','' then
                                    parse_members n (skip_ws r3) (AList.update key v acc)
                                  else None)))))"

definition json_loads :: "string \<Rightarrow> exn + json" where
  "json_loads s =
     (case parse_value (Suc (length s)) (skip_ws s) of
        None \<Rightarrow> Inl JSONDecodeError
      | Some (v, r) \<Rightarrow> if skip_ws r = [] then Inr v else Inl JSONDecodeError)"

section \<open>Section segmentation\<close>

subsection \<open>Line scanning (\<open>PDFParser.extract_sections\<close>)\<close>

text \<open>
  A dict is the list of its items in insertion order; an assignment to a key is
  \<^const>\<open>AList.update\<close>. The loop over the lines is a fold of \<open>scan_line\<close> over a state of the
  three variables the loop changes.
\<close>

definition section_keywords :: "(string \<times> string list) list" where
  "section_keywords =
     [(''education'', [''education'', ''academic'', ''qualification'', ''degree'', ''university'']),
      (''experience'', [''experience'', ''work history'', ''employment'', ''professional experience'']),
      (''skills'', [''skills'', ''technical skills'', ''competencies'', ''abilities'']),
      (''projects'', [''projects'', ''portfolio'', ''work samples'']),
      (''certifications'', [''certifications'', ''certificates'', ''licenses'', ''awards'']),
      (''summary'', [''summary'', ''objective'', ''professional summary'', ''about'', ''profile''])]"

definition empty_sections :: "(string \<times> string) list" where
  "empty_sections =
     [(''education'', []),
      (''experience'', []),
      (''skills'', []),
      (''projects'', []),
      (''certifications'', []),
      (''summary'', [])]"

record scan_state =
  sections :: "(string \<times> string) list"
  current_section :: "string option"
  section_content :: "string list"

text \<open>
  The inner loop over \<open>section_keywords.items()\<close>, which stops at the first section with a
  keyword in the line when the line is shorter than 50 characters.
\<close>

definition find_section :: "string \<Rightarrow> string option" where
  "find_section line_lower =
     map_option fst
       (find (\<lambda>(section, keywords).
                list_ex (\<lambda>keyword. sublist keyword line_lower) keywords
                \<and> length line_lower < 50)
          section_keywords)"

text \<open>\<open>if current_section and section_content: sections[current_section] = '\n'.join(...)\<close>.\<close>

definition save_section :: "scan_state \<Rightarrow> (string \<times> string) list" where
  "save_section st =
     (case current_section st of
        Some cur \<Rightarrow>
          if cur \<noteq> [] \<and> section_content st \<noteq> []
          then AList.update cur (join_nl (section_content st)) (sections st)
          else sections st
      | None \<Rightarrow> sections st)"

definition scan_line :: "scan_state \<Rightarrow> string \<Rightarrow> scan_state" where
  "scan_line st line =
     (let line_lower = py_strip (py_lower line)
      in case find_section line_lower of
           Some section \<Rightarrow>
             \<lparr>sections = save_section st, current_section = Some section, section_content = []\<rparr>
         | None \<Rightarrow>
             if current_section st \<noteq> None \<and> current_section st \<noteq> Some [] \<and> py_strip line \<noteq> []
             then st\<lparr>section_content := section_content st @ [line]\<rparr>
             else st)"

definition extract_sections :: "string \<Rightarrow> (string \<times> string) list" where
  "extract_sections text =
     save_section
       (foldl scan_line
          \<lparr>sections = empty_sections, current_section = None, section_content = []\<rparr>
          (split_nl text))"

text \<open>A line is a boundary when it starts a section.\<close>

definition is_boundary :: "string \<Rightarrow> bool" where
  "is_boundary line = (find_section (py_strip (py_lower line)) \<noteq> None)"

definition is_blank :: "string \<Rightarrow> bool" where
  "is_blank line = (py_strip line = [])"

text \<open>
  A content line is a line of the text that is neither a boundary nor blank. \<open>scan_ok\<close> is
  the invariant of the loop: the keys stay the six names in their order, the active
  section is one of them, the accumulator holds content lines, and every value is empty or
  the newline-joined text of at least one content line.
\<close>

definition section_names :: "string list" where
  "section_names =
     [''education'', ''experience'', ''skills'', ''projects'', ''certifications'', ''summary'']"

definition content_line :: "string \<Rightarrow> bool" where
  "content_line line =
     (\<not> is_boundary line \<and> \<not> is_blank line \<and> CHR ''\<newline>'' \<notin> set line)"

definition joined_content :: "string \<Rightarrow> bool" where
  "joined_content v =
     (v = [] \<or> (\<exists>ls. ls \<noteq> [] \<and> (\<forall>l\<in>set ls. content_line l) \<and> v = join_nl ls))"

definition scan_ok :: "scan_state \<Rightarrow> bool" where
  "scan_ok st =
     (map fst (sections st) = section_names
      \<and> (\<forall>cur. current_section st = Some cur \<longrightarrow> cur \<in> set section_names)
      \<and> (\<forall>l\<in>set (section_content st). content_line l)
      \<and> (\<forall>v\<in>snd ` set (sections st). joined_content v))"

subsection \<open>Anchored patterns (\<open>extract_text_sections\<close>)\<close>

definition empty_text_sections :: "(string \<times> string) list" where
  "empty_text_sections =
     [(''summary'', []),
      (''experience'', []),
      (''education'', []),
      (''skills'', []),
      (''projects'', []),
      (''certifications'', [])]"

text \<open>
  The header alternation of each pattern and what ends its capture: a lookahead, or for
  the last pattern the end of the text.
\<close>

definition section_header :: "string \<Rightarrow> rx" where
  "section_header section =
     (if section = ''summary'' then
        alts [phrase ''professional'' ''summary'', Lit ''objective'', Lit ''about'', Lit ''profile'']
      else if section = ''experience'' then
        alts [phrase ''professional'' ''experience'', phrase ''work'' ''history'', Lit ''employment'']
      else if section = ''education'' then alts [Lit ''education'', Lit ''academic'']
      else if section = ''skills'' then alts [Lit ''skills'', phrase ''technical'' ''skills'']
      else if section = ''projects'' then
        alts [Lit ''projects'', Lit ''portfolio'', phrase ''work'' ''samples'']
      else alts [Lit ''certification'', Lit ''license''])"

definition section_stop :: "string \<Rightarrow> rx" where
  "section_stop section =
     (if section = ''summary'' then
        Ahead (alts [phrase ''professional'' ''experience'', Lit ''education'', Lit ''skills'',
                     Lit ''projects'', Lit ''certification'', Eos])
      else if section = ''experience'' then
        Ahead (alts [Lit ''education'', Lit ''skills'', Lit ''projects'', Lit ''certification'', Eos])
      else if section = ''education'' then
        Ahead (alts [Lit ''skills'', Lit ''projects'', Lit ''certification'', Eos])
      else if section = ''skills'' then Ahead (alts [Lit ''projects'', Lit ''certification'', Eos])
      else if section = ''projects'' then Ahead (alts [Lit ''certification'', Eos])
      else Eos)"

definition section_pattern :: "string \<Rightarrow> rx" where
  "section_pattern section =
     Cat (section_header section) (Cat (Group AnyLazy) (section_stop section))"

definition text_section_names :: "string list" where
  "text_section_names =
     [''summary'', ''experience'', ''education'', ''skills'', ''projects'', ''certifications'']"

definition section_patterns :: "(string \<times> rx) list" where
  "section_patterns =
     map (\<lambda>section. (section, section_pattern section))
       [''summary'', ''experience'', ''education'', ''skills'', ''projects'', ''certifications'']"

text \<open>
  The loop over \<open>section_patterns.items()\<close>. \<open>match.group(1)\<close> is \<open>None\<close> when the group took
  no part in the match, and \<open>None.strip()\<close> raises.
\<close>

fun apply_patterns ::
  "(string \<times> rx) list \<Rightarrow> string \<Rightarrow> (string \<times> string) list \<Rightarrow> exn + (string \<times> string) list" where
  "apply_patterns [] text secs = Inr secs"
| "apply_patterns ((section, pattern) # ps) text secs =
     (case re_search True pattern text of
        Some m \<Rightarrow>
          (case snd m of
             Some g1 \<Rightarrow> apply_patterns ps text (AList.update section (py_strip g1) secs)
           | None \<Rightarrow> Inl AttributeError)
      | None \<Rightarrow> apply_patterns ps text secs)"

definition extract_text_sections :: "string \<Rightarrow> exn + (string \<times> string) list" where
  "extract_text_sections text = apply_patterns section_patterns text empty_text_sections"

text \<open>
  For the properties of the patterns: \<open>no_group\<close> holds of a pattern without a capturing
  group, \<open>header_at\<close> lists what is left of a suffix after the header of a section matched
  at its start, and \<open>stops_at\<close> says that the capture of a section may end before a suffix.
\<close>

fun no_group :: "rx \<Rightarrow> bool" where
  "no_group (Group r) = False"
| "no_group (Cat a b) = (no_group a \<and> no_group b)"
| "no_group (Or a b) = (no_group a \<and> no_group b)"
| "no_group (Ahead a) = no_group a"
| "no_group r = True"

definition header_at :: "string \<Rightarrow> string \<Rightarrow> string list" where
  "header_at section u = map fst (rx_run True (section_header section) (u, None))"

definition stops_at :: "string \<Rightarrow> string \<Rightarrow> bool" where
  "stops_at section u = (rx_run True (section_stop section) (u, None) \<noteq> [])"

subsection \<open>The anchored patterns as the specification words them\<close>

text \<open>
  The specification gives each section a list of header synonyms and says that the
  lookahead of a section is the union of the synonym lists of all other sections plus the
  end of the text. \<open>spec_extract_text_sections\<close> is the extraction with those patterns, to
  be compared with \<open>extract_text_sections\<close>.
\<close>

definition spec_synonyms :: "string \<Rightarrow> rx list" where
  "spec_synonyms section =
     (if section = ''summary'' then
        [phrase ''professional'' ''summary'', Lit ''objective'', Lit ''about'', Lit ''profile'']
      else if section = ''experience'' then
        [phrase ''professional'' ''experience'', phrase ''work'' ''history'', Lit ''employment'']
      else if section = ''education'' then [Lit ''education'', Lit ''academic'']
      else if section = ''skills'' then [Lit ''skills'', phrase ''technical'' ''skills'']
      else if section = ''projects'' then
        [Lit ''projects'', Lit ''portfolio'', phrase ''work'' ''samples'']
      else [Lit ''certification'', Lit ''license''])"

definition spec_section_pattern :: "string \<Rightarrow> rx" where
  "spec_section_pattern section =
     Cat (alts (spec_synonyms section))
       (Cat (Group AnyLazy)
          (Ahead (alts (concat (map spec_synonyms (filter (\<lambda>other. other \<noteq> section) text_section_names))
                        @ [Eos]))))"

definition spec_extract_text_sections :: "string \<Rightarrow> exn + (string \<times> string) list" where
  "spec_extract_text_sections text =
     apply_patterns (map (\<lambda>section. (section, spec_section_pattern section)) text_section_names)
       text empty_text_sections"

section \<open>Evaluating characters\<close>

text \<open>
  Equations that compute \<open>py_lower_char\<close> and \<open>py_isspace\<close> on the bits of a character, for the
  evaluation of the definitions on concrete texts.
\<close>

lemma py_lower_char_bits [code]:
  "py_lower_char (Char b0 b1 b2 b3 b4 b5 b6 b7) =
     (if \<not> b5 \<and> b6 \<and>
         (if b7 then \<not> (b0 \<and> b1 \<and> b2 \<and> b3 \<and> b4) \<and> \<not> (b0 \<and> b1 \<and> b2 \<and> \<not> b3 \<and> b4)
          else (b0 \<or> b1 \<or> b2 \<or> b3 \<or> b4) \<and> \<not> (b4 \<and> b3 \<and> (b2 \<or> (b1 \<and> b0))))
      then Char b0 b1 b2 b3 b4 True b6 b7
      else Char b0 b1 b2 b3 b4 b5 b6 b7)"
  by (cases b0; cases b1; cases b2; cases b3; cases b4; cases b5; cases b6; cases b7;
      simp add: py_lower_char_def char_of_eq_iff)

lemma py_isspace_chars [code]:
  "py_isspace c =
     (c \<in> set [CHR 0x09, CHR 0x0A, CHR 0x0B, CHR 0x0C, CHR 0x0D, CHR 0x1C, CHR 0x1D, CHR 0x1E,
                CHR 0x1F, CHR 0x20, CHR 0x85, CHR 0xA0])"
proof -
  have "c = char_of (of_char c :: nat)" by simp
  show ?thesis
    unfolding py_isspace_def
    by (subst (2) \<open>c = char_of (of_char c :: nat)\<close>)
       (auto simp: char_of_eq_iff take_bit_eq_mod simp del: char_of_char)
qed

section \<open>The bracket patterns\<close>

lemma star_close_unfold:
  "rx_run False (Cat AnyStar (Lit [b])) (s, g)
   = concat (map (\<lambda>t. rx_run False (Lit [b]) (t, g)) (rev (tails s)))"
  by (simp add: comp_def)

lemma tails_no_close:
  "b \<notin> set s \<Longrightarrow> concat (map (\<lambda>t. rx_run False (Lit [b]) (t, g)) (tails s)) = []"
  by (induction s) (auto simp: lit_match_def)

lemma concat_map_rev_Nil:
  "concat (map f xs) = [] \<Longrightarrow> concat (map f (rev xs)) = []"
  by (induction xs) auto

lemma star_close_none:
  "b \<notin> set s \<Longrightarrow> rx_run False (Cat AnyStar (Lit [b])) (s, g) = []"
  unfolding star_close_unfold
  by (rule concat_map_rev_Nil) (rule tails_no_close)

lemma lit_run_hit: "rx_run False (Lit [b]) (b # s, g) = [(s, g)]"
  by (simp add: lit_match_def)

lemma star_close_last:
  "b \<notin> set post \<Longrightarrow>
   \<exists>rest. rx_run False (Cat AnyStar (Lit [b])) (mid @ b # post, g) = (post, g) # rest"
proof (induction mid)
  case Nil
  define F where "F = (\<lambda>t. rx_run False (Lit [b]) (t, g))"
  have "concat (map F (rev (tails post))) = []"
    unfolding F_def using Nil by (intro concat_map_rev_Nil tails_no_close)
  moreover have "F (b # post) = [(post, g)]"
    unfolding F_def by (rule lit_run_hit)
  ultimately have "concat (map F (rev (tails ([] @ b # post)))) = [(post, g)]"
    by simp
  then show ?case
    unfolding star_close_unfold F_def by blast
next
  case (Cons m mid)
  define F where "F = (\<lambda>t. rx_run False (Lit [b]) (t, g))"
  from Cons obtain rest where
    "concat (map F (rev (tails (mid @ b # post)))) = (post, g) # rest"
    unfolding star_close_unfold F_def by blast
  then have "concat (map F (rev (tails ((m # mid) @ b # post))))
      = (post, g) # (rest @ F ((m # mid) @ b # post))"
    by simp
  then show ?case
    unfolding star_close_unfold F_def by blast
qed

lemma bracket_run_open:
  "rx_run False (Cat (Lit [a]) r) (c # s, g) = (if c = a then rx_run False r (s, g) else [])"
  by (simp add: lit_match_def)

lemma bracket_search_none:
  "b \<notin> set s \<Longrightarrow> re_search False (Cat (Lit [a]) (Cat AnyStar (Lit [b]))) s = None"
proof (induction s)
  case Nil
  show ?case by (simp add: lit_match_def)
next
  case (Cons c s)
  then have "rx_run False (Cat AnyStar (Lit [b])) (s, None) = []"
    by (intro star_close_none) simp
  with Cons show ?case
    by (simp only: re_search.simps bracket_run_open) (simp split: if_splits)
qed

lemma bracket_search_no_open:
  "a \<notin> set s \<Longrightarrow> re_search False (Cat (Lit [a]) r) s = None"
  by (induction s) (simp_all add: lit_match_def)

lemma bracket_search_skip:
  "c \<noteq> a \<Longrightarrow> re_search False (Cat (Lit [a]) r) (c # s) = re_search False (Cat (Lit [a]) r) s"
  by (simp only: re_search.simps bracket_run_open) simp

lemma bracket_search_span:
  assumes "a \<notin> set pre" and "b \<notin> set post"
  shows "re_search False (Cat (Lit [a]) (Cat AnyStar (Lit [b]))) (pre @ a # mid @ b # post)
         = Some (a # mid @ [b], None)"
  using assms(1)
proof (induction pre)
  case Nil
  obtain rest where
    "rx_run False (Cat AnyStar (Lit [b])) (mid @ b # post, None) = (post, None) # rest"
    using star_close_last [OF assms(2)] by blast
  then show ?case
    by (simp only: append_Nil re_search.simps bracket_run_open) simp
next
  case (Cons c pre)
  then have c: "c \<noteq> a" and pre: "a \<notin> set pre" by auto
  show ?case
    unfolding append_Cons bracket_search_skip [OF c] by (rule Cons.IH [OF pre])
qed

lemma bracket_search_open_unclosed:
  assumes "a \<notin> set pre" and "b \<notin> set rest"
  shows "re_search False (Cat (Lit [a]) (Cat AnyStar (Lit [b]))) (pre @ a # rest) = None"
  using assms(1)
proof (induction pre)
  case Nil
  have "rx_run False (Cat AnyStar (Lit [b])) (rest, None) = []"
    using assms(2) by (rule star_close_none)
  moreover have "re_search False (Cat (Lit [a]) (Cat AnyStar (Lit [b]))) rest = None"
    using assms(2) by (rule bracket_search_none)
  ultimately show ?case
    by (simp only: append_Nil re_search.simps bracket_run_open) simp
next
  case (Cons c pre)
  then have c: "c \<noteq> a" and pre: "a \<notin> set pre" by auto
  show ?case
    unfolding append_Cons bracket_search_skip [OF c] by (rule Cons.IH [OF pre])
qed

lemma first_open_before_close:
  assumes "p1 @ a # r1 = pre @ a # mid @ b # post" and "a \<notin> set p1"
  shows "b \<in> set r1"
  using assms
  by (auto simp: append_eq_append_conv2 Cons_eq_append_conv append_eq_Cons_conv)

text \<open>No span: there is no opening bracket with a closing bracket after it.\<close>

lemma bracket_search_none_iff:
  "re_search False (Cat (Lit [a]) (Cat AnyStar (Lit [b]))) s = None
   \<longleftrightarrow> \<not> (\<exists>pre mid post. s = pre @ a # mid @ b # post)"
proof
  assume none: "re_search False (Cat (Lit [a]) (Cat AnyStar (Lit [b]))) s = None"
  show "\<not> (\<exists>pre mid post. s = pre @ a # mid @ b # post)"
  proof
    assume "\<exists>pre mid post. s = pre @ a # mid @ b # post"
    then obtain pre mid post where s: "s = pre @ a # mid @ b # post" by blast
    have "a \<in> set s" using s by simp
    then obtain p1 r1 where s1: "s = p1 @ a # r1" and p1: "a \<notin> set p1"
      by (meson split_list_first)
    have "b \<in> set r1"
      using first_open_before_close [of p1 a r1 pre mid b post] s s1 p1 by simp
    then obtain m2 po2 where "r1 = m2 @ b # po2" and "b \<notin> set po2"
      by (meson split_list_last)
    with s1 p1 have "re_search False (Cat (Lit [a]) (Cat AnyStar (Lit [b]))) s
        = Some (a # m2 @ [b], None)"
      by (simp add: bracket_search_span del: re_search.simps rx_run.simps)
    with none show False by simp
  qed
next
  assume no: "\<not> (\<exists>pre mid post. s = pre @ a # mid @ b # post)"
  show "re_search False (Cat (Lit [a]) (Cat AnyStar (Lit [b]))) s = None"
  proof (cases "a \<in> set s")
    case False
    then show ?thesis by (rule bracket_search_no_open)
  next
    case True
    then obtain p1 r1 where s1: "s = p1 @ a # r1" and p1: "a \<notin> set p1"
      by (meson split_list_first)
    have "b \<notin> set r1"
    proof
      assume "b \<in> set r1"
      then obtain m2 po2 where "r1 = m2 @ b # po2" by (meson split_list)
      with s1 no show False by blast
    qed
    with s1 p1 show ?thesis
      by (simp add: bracket_search_open_unclosed del: re_search.simps rx_run.simps)
  qed
qed

section \<open>The AI services: fallbacks\<close>

lemma object_search_span:
  "CHR ''{'' \<notin> set pre \<Longrightarrow> CHR ''}'' \<notin> set post \<Longrightarrow>
   re_search False json_object_rx (pre @ ''{'' @ mid @ ''}'' @ post) = Some (''{'' @ mid @ ''}'', None)"
  unfolding json_object_rx_def using bracket_search_span [of "CHR ''{''" pre "CHR ''}''" post mid]
  by simp

lemma object_search_none:
  "\<not> (\<exists>pre mid post. s = pre @ ''{'' @ mid @ ''}'' @ post) \<Longrightarrow>
   re_search False json_object_rx s = None"
  unfolding json_object_rx_def using bracket_search_none_iff [of "CHR ''{''" "CHR ''}''" s]
  by simp

lemma array_search_span:
  "CHR ''['' \<notin> set pre \<Longrightarrow> CHR '']'' \<notin> set post \<Longrightarrow>
   re_search False json_array_rx (pre @ ''['' @ mid @ '']'' @ post) = Some (''['' @ mid @ '']'', None)"
  unfolding json_array_rx_def using bracket_search_span [of "CHR ''[''" pre "CHR '']''" post mid]
  by simp

lemma array_search_none:
  "\<not> (\<exists>pre mid post. s = pre @ ''['' @ mid @ '']'' @ post) \<Longrightarrow>
   re_search False json_array_rx s = None"
  unfolding json_array_rx_def using bracket_search_none_iff [of "CHR ''[''" "CHR '']''" s]
  by simp

lemma calculate_ats_score_returns:
  "\<exists>v. calculate_ats_score g l r j = Inr v"
  by (simp add: calculate_ats_score_def split: sum.split exn.split)

lemma calculate_ats_score_ai_fails:
  "g (ats_prompt r j) = Inl e \<Longrightarrow> calculate_ats_score g l r j = Inr get_default_score"
  by (simp add: calculate_ats_score_def calculate_ats_score_attempt_def split: exn.split)

lemma calculate_ats_score_no_span:
  "g (ats_prompt r j) = Inr completion \<Longrightarrow>
   \<not> (\<exists>pre mid post. py_strip completion = pre @ ''{'' @ mid @ ''}'' @ post) \<Longrightarrow>
   calculate_ats_score g l r j = Inr get_default_score"
  by (simp add: calculate_ats_score_def calculate_ats_score_attempt_def object_search_none
      del: re_search.simps)

lemma calculate_ats_score_span:
  assumes "g (ats_prompt r j) = Inr completion"
    and "py_strip completion = pre @ ''{'' @ mid @ ''}'' @ post"
    and "CHR ''{'' \<notin> set pre" and "CHR ''}'' \<notin> set post"
  shows "calculate_ats_score g l r j =
     (case l (''{'' @ mid @ ''}'') of
        Inl e \<Rightarrow> Inr get_default_score
      | Inr result \<Rightarrow>
          (case dict_get result ''score'' (JString ''N/A'') of
             Inl e \<Rightarrow> Inr get_default_score
           | Inr _ \<Rightarrow> Inr result))"
  using assms object_search_span [of pre post mid]
  by (simp add: calculate_ats_score_def calculate_ats_score_attempt_def
      del: re_search.simps split: sum.split exn.split)




lemma enhance_resume_content_span:
  assumes "g (enhance_prompt dumps d j) = Inr completion"
    and "py_strip completion = pre @ ''{'' @ mid @ ''}'' @ post"
    and "CHR ''{'' \<notin> set pre" and "CHR ''}'' \<notin> set post"
  shows "enhance_resume_content g l dumps d j =
     (case l (''{'' @ mid @ ''}'') of Inl e \<Rightarrow> Inr d | Inr enhanced_data \<Rightarrow> Inr enhanced_data)"
  using assms object_search_span [of pre post mid]
  by (simp add: enhance_resume_content_def enhance_resume_content_attempt_def
      del: re_search.simps split: sum.split exn.split)

lemma suggest_improvements_returns:
  "\<exists>v. suggest_improvements g l r = Inr v"
  by (simp add: suggest_improvements_def split: sum.split exn.split)

lemma suggest_improvements_ai_fails:
  "g (suggest_prompt r) = Inl e \<Longrightarrow> suggest_improvements g l r = Inr (JArray [])"
  by (simp add: suggest_improvements_def suggest_improvements_attempt_def split: exn.split)

lemma suggest_improvements_no_span:
  "g (suggest_prompt r) = Inr completion \<Longrightarrow>
   \<not> (\<exists>pre mid post. py_strip completion = pre @ ''['' @ mid @ '']'' @ post) \<Longrightarrow>
   suggest_improvements g l r = Inr canned_suggestions"
  by (simp add: suggest_improvements_def suggest_improvements_attempt_def array_search_none
      del: re_search.simps)

lemma suggest_improvements_span:
  assumes "g (suggest_prompt r) = Inr completion"
    and "py_strip completion = pre @ ''['' @ mid @ '']'' @ post"
    and "CHR ''['' \<notin> set pre" and "CHR '']'' \<notin> set post"
  shows "suggest_improvements g l r =
     (case l (''['' @ mid @ '']'') of
        Inl e \<Rightarrow> Inr (JArray [])
      | Inr suggestions \<Rightarrow>
          (case py_len suggestions of
             Inl e \<Rightarrow> Inr (JArray [])
           | Inr _ \<Rightarrow> Inr suggestions))"
  using assms array_search_span [of pre post mid]
  by (simp add: suggest_improvements_def suggest_improvements_attempt_def
      del: re_search.simps split: sum.split exn.split)

lemma no_span_without_open:
  "a \<notin> set s \<Longrightarrow> \<not> (\<exists>pre mid post. s = pre @ [a] @ mid @ [b] @ post)"
  by auto

subsection \<open>ATS scoring\<close>

lemma strip_plain: "py_strip ''not json at all'' = ''not json at all''"
  by (simp add: py_strip_def py_lstrip_def py_rstrip_def py_isspace_def)

text \<open>
  Claim C1. \<open>calculate_ats_score\<close> never raises: for every client, decoder, resume text and
  job description it returns a value. It returns the fixed default result when the AI call
  raises, when the stripped completion has no \<open>{\<close> followed later by a \<open>}\<close>, and when the
  decoder raises on the span from the first \<open>{\<close> to the last \<open>}\<close>; when the decoder
  returns an object (the only value a JSON text that starts with \<open>{\<close> denotes), that
  object is the result. The default result has score 65 and the four canned fields.
\<close>

theorem calculate_ats_score_fallback:
  "(\<exists>v. calculate_ats_score g l r j = Inr v)
   \<and> (g (ats_prompt r j) = Inl e \<longrightarrow> calculate_ats_score g l r j = Inr get_default_score)
   \<and> (g (ats_prompt r j) = Inr completion
        \<and> \<not> (\<exists>pre mid post. py_strip completion = pre @ ''{'' @ mid @ ''}'' @ post)
      \<longrightarrow> calculate_ats_score g l r j = Inr get_default_score)
   \<and> (g (ats_prompt r j) = Inr completion \<and> py_strip completion = pre @ ''{'' @ mid @ ''}'' @ post
        \<and> CHR ''{'' \<notin> set pre \<and> CHR ''}'' \<notin> set post \<and> l (''{'' @ mid @ ''}'') = Inl e
      \<longrightarrow> calculate_ats_score g l r j = Inr get_default_score)
   \<and> (g (ats_prompt r j) = Inr completion \<and> py_strip completion = pre @ ''{'' @ mid @ ''}'' @ post
        \<and> CHR ''{'' \<notin> set pre \<and> CHR ''}'' \<notin> set post
        \<and> l (''{'' @ mid @ ''}'') = Inr (JObject items)
      \<longrightarrow> calculate_ats_score g l r j = Inr (JObject items))
   \<and> dict_get get_default_score ''score'' JNull = Inr (JInt 65)
   \<and> (\<exists>mk sg sa sm. get_default_score =
          JObject [(''score'', JInt 65), (''missing_keywords'', JArray mk), (''suggestions'', JArray sg),
                   (''sections_analysis'', JObject sa), (''summary'', JString sm)])"
proof (intro conjI impI)
  show "\<exists>v. calculate_ats_score g l r j = Inr v"
    by (rule calculate_ats_score_returns)
  show "calculate_ats_score g l r j = Inr get_default_score" if "g (ats_prompt r j) = Inl e"
    using that by (rule calculate_ats_score_ai_fails)
  show "calculate_ats_score g l r j = Inr get_default_score"
    if "g (ats_prompt r j) = Inr completion
        \<and> \<not> (\<exists>pre mid post. py_strip completion = pre @ ''{'' @ mid @ ''}'' @ post)"
    using that calculate_ats_score_no_span [of g r j completion l] by blast
  show "calculate_ats_score g l r j = Inr get_default_score"
    if "g (ats_prompt r j) = Inr completion \<and> py_strip completion = pre @ ''{'' @ mid @ ''}'' @ post
        \<and> CHR ''{'' \<notin> set pre \<and> CHR ''}'' \<notin> set post \<and> l (''{'' @ mid @ ''}'') = Inl e"
    using that calculate_ats_score_span [of g r j completion pre mid post l] by simp
  show "calculate_ats_score g l r j = Inr (JObject items)"
    if "g (ats_prompt r j) = Inr completion \<and> py_strip completion = pre @ ''{'' @ mid @ ''}'' @ post
        \<and> CHR ''{'' \<notin> set pre \<and> CHR ''}'' \<notin> set post
        \<and> l (''{'' @ mid @ ''}'') = Inr (JObject items)"
    using that calculate_ats_score_span [of g r j completion pre mid post l]
    by (simp add: dict_get_def)
  show "dict_get get_default_score ''score'' JNull = Inr (JInt 65)"
    by (simp add: dict_get_def get_default_score_def)
  show "\<exists>mk sg sa sm. get_default_score =
          JObject [(''score'', JInt 65), (''missing_keywords'', JArray mk), (''suggestions'', JArray sg),
                   (''sections_analysis'', JObject sa), (''summary'', JString sm)]"
    by (simp add: get_default_score_def)
qed

theorem calculate_ats_score_fallback_witness:
  \<open>calculate_ats_score (\<lambda>p. Inl OtherException) json_loads ''Python developer'' [] = Inr get_default_score
   \<and> calculate_ats_score (\<lambda>p. Inr ''not json at all'') json_loads ''Python developer'' []
       = Inr get_default_score
   \<and> calculate_ats_score (\<lambda>p. Inr ''{"score" 80}'') json_loads ''Python developer'' []
       = Inr get_default_score
   \<and> calculate_ats_score (\<lambda>p. Inr ''Result: {"score": 80}'') json_loads ''Python developer'' []
       = Inr (JObject [(''score'', JInt 80)])\<close>
proof (intro conjI)
  show "calculate_ats_score (\<lambda>p. Inl OtherException) json_loads ''Python developer'' []
      = Inr get_default_score"
    using calculate_ats_score_fallback
      [of "\<lambda>p. Inl OtherException" json_loads "''Python developer''" "[]" OtherException]
    by simp
  have "\<not> (\<exists>pre mid post. py_strip ''not json at all'' = pre @ ''{'' @ mid @ ''}'' @ post)"
    unfolding strip_plain by (rule no_span_without_open) simp
  then show "calculate_ats_score (\<lambda>p. Inr ''not json at all'') json_loads ''Python developer'' []
      = Inr get_default_score"
    using calculate_ats_score_fallback
      [of "\<lambda>p. Inr ''not json at all''" json_loads "''Python developer''" "[]" _ "''not json at all''"]
    by simp
  have s1: \<open>py_strip ''{"score" 80}'' = [] @ ''{'' @ ''"score" 80'' @ ''}'' @ []\<close>
    by (simp add: py_strip_def py_lstrip_def py_rstrip_def py_isspace_def)
  have l1: \<open>json_loads (''{'' @ ''"score" 80'' @ ''}'') = Inl JSONDecodeError\<close>
    by code_simp
  show \<open>calculate_ats_score (\<lambda>p. Inr ''{"score" 80}'') json_loads ''Python developer'' []
      = Inr get_default_score\<close>
    using calculate_ats_score_fallback
      [of \<open>\<lambda>p. Inr ''{"score" 80}''\<close> json_loads "''Python developer''" "[]" JSONDecodeError
          \<open>''{"score" 80}''\<close> "[]" \<open>''"score" 80''\<close> "[]"] s1 l1
    by simp
  have s2: \<open>py_strip ''Result: {"score": 80}'' = ''Result: '' @ ''{'' @ ''"score": 80'' @ ''}'' @ []\<close>
    by (simp add: py_strip_def py_lstrip_def py_rstrip_def py_isspace_def)
  have l2: \<open>json_loads (''{'' @ ''"score": 80'' @ ''}'') = Inr (JObject [(''score'', JInt 80)])\<close>
    by code_simp
  show \<open>calculate_ats_score (\<lambda>p. Inr ''Result: {"score": 80}'') json_loads ''Python developer'' []
       = Inr (JObject [(''score'', JInt 80)])\<close>
    using calculate_ats_score_fallback
      [of \<open>\<lambda>p. Inr ''Result: {"score": 80}''\<close> json_loads "''Python developer''" "[]" _
          \<open>''Result: {"score": 80}''\<close> \<open>''Result: ''\<close> \<open>''"score": 80''\<close> "[]"
          "[(''score'', JInt 80)]"] s2 l2
    by simp
qed

subsection \<open>Resume enhancement\<close>



subsection \<open>Improvement suggestions\<close>

text \<open>
  Claim C8. \<open>suggest_improvements\<close> never raises, and its failures differ: when the stripped
  completion has no \<open>[\<close> followed later by a \<open>]\<close> the result is the canned list, which has
  exactly 5 suggestions; when there is such a span and the decoder raises on it, the result
  is the empty list.
\<close>

theorem suggest_improvements_asymmetry:
  "(\<exists>v. suggest_improvements g l r = Inr v)
   \<and> (g (suggest_prompt r) = Inr completion
        \<and> \<not> (\<exists>pre mid post. py_strip completion = pre @ ''['' @ mid @ '']'' @ post)
      \<longrightarrow> suggest_improvements g l r = Inr canned_suggestions)
   \<and> py_len canned_suggestions = Inr 5
   \<and> (g (suggest_prompt r) = Inr completion
        \<and> py_strip completion = pre @ ''['' @ mid @ '']'' @ post
        \<and> CHR ''['' \<notin> set pre \<and> CHR '']'' \<notin> set post \<and> l (''['' @ mid @ '']'') = Inl e
      \<longrightarrow> suggest_improvements g l r = Inr (JArray []))"
proof (intro conjI impI)
  show "\<exists>v. suggest_improvements g l r = Inr v"
    by (rule suggest_improvements_returns)
  show "suggest_improvements g l r = Inr canned_suggestions"
    if "g (suggest_prompt r) = Inr completion
        \<and> \<not> (\<exists>pre mid post. py_strip completion = pre @ ''['' @ mid @ '']'' @ post)"
    using that suggest_improvements_no_span [of g r completion l] by blast
  show "py_len canned_suggestions = Inr 5"
    by (simp add: py_len_def canned_suggestions_def)
  show "suggest_improvements g l r = Inr (JArray [])"
    if "g (suggest_prompt r) = Inr completion
        \<and> py_strip completion = pre @ ''['' @ mid @ '']'' @ post
        \<and> CHR ''['' \<notin> set pre \<and> CHR '']'' \<notin> set post \<and> l (''['' @ mid @ '']'') = Inl e"
    using that suggest_improvements_span [of g r completion pre mid post l] by simp
qed

theorem suggest_improvements_asymmetry_witness:
  \<open>suggest_improvements (\<lambda>p. Inr ''not json at all'') json_loads ''Python developer''
     = Inr canned_suggestions
   \<and> suggest_improvements (\<lambda>p. Inr ''Here: [add metrics, use verbs]'') json_loads ''Python developer''
     = Inr (JArray [])\<close>
proof (intro conjI)
  have "\<not> (\<exists>pre mid post. py_strip ''not json at all'' = pre @ ''['' @ mid @ '']'' @ post)"
    unfolding strip_plain by (rule no_span_without_open) simp
  then show "suggest_improvements (\<lambda>p. Inr ''not json at all'') json_loads ''Python developer''
      = Inr canned_suggestions"
    using suggest_improvements_asymmetry
      [of "\<lambda>p. Inr ''not json at all''" json_loads "''Python developer''" "''not json at all''"]
    by simp
  have s1: "py_strip ''Here: [add metrics, use verbs]''
      = ''Here: '' @ ''['' @ ''add metrics, use verbs'' @ '']'' @ []"
    by (simp add: py_strip_def py_lstrip_def py_rstrip_def py_isspace_def)
  have l1: "json_loads (''['' @ ''add metrics, use verbs'' @ '']'') = Inl JSONDecodeError"
    by code_simp
  show "suggest_improvements (\<lambda>p. Inr ''Here: [add metrics, use verbs]'') json_loads
      ''Python developer'' = Inr (JArray [])"
    using suggest_improvements_asymmetry
      [of "\<lambda>p. Inr ''Here: [add metrics, use verbs]''" json_loads "''Python developer''"
          "''Here: [add metrics, use verbs]''" "''Here: ''" "''add metrics, use verbs''" "[]"
          JSONDecodeError] s1 l1
    by simp
qed

subsection \<open>The span that is parsed\<close>

lemma strip_noise:
  \<open>py_strip ''noise noise {"score": 80} trailing''
     = ''noise noise '' @ ''{'' @ ''"score": 80'' @ ''}'' @ '' trailing''\<close>
  by (simp add: py_strip_def py_lstrip_def py_rstrip_def py_isspace_def)

lemma loads_score_80:
  \<open>json_loads (''{'' @ ''"score": 80'' @ ''}'') = Inr (JObject [(''score'', JInt 80)])\<close>
  by code_simp

lemma calculate_ats_score_noise:
  \<open>calculate_ats_score (\<lambda>p. Inr ''noise noise {"score": 80} trailing'') json_loads r j
     = Inr (JObject [(''score'', JInt 80)])\<close>
  using calculate_ats_score_span
    [of \<open>\<lambda>p. Inr ''noise noise {"score": 80} trailing''\<close> r j
        \<open>''noise noise {"score": 80} trailing''\<close> \<open>''noise noise ''\<close> \<open>''"score": 80''\<close>
        \<open>'' trailing''\<close> json_loads]
    strip_noise loads_score_80
  by (simp add: dict_get_def)

lemma enhance_resume_content_noise:
  \<open>enhance_resume_content (\<lambda>p. Inr ''noise noise {"score": 80} trailing'') json_loads dumps d j
     = Inr (JObject [(''score'', JInt 80)])\<close>
  using enhance_resume_content_span
    [of \<open>\<lambda>p. Inr ''noise noise {"score": 80} trailing''\<close> dumps d j
        \<open>''noise noise {"score": 80} trailing''\<close> \<open>''noise noise ''\<close> \<open>''"score": 80''\<close>
        \<open>'' trailing''\<close> json_loads]
    strip_noise loads_score_80
  by simp

lemma two_objects_span:
  \<open>re_search False json_object_rx ''{"a": 1} and {"b": 2}'' = Some (''{"a": 1} and {"b": 2}'', None)\<close>
  using object_search_span [of "[]" "[]" \<open>''"a": 1} and {"b": 2''\<close>]
  by simp

lemma two_objects_rejected: \<open>json_loads ''{"a": 1} and {"b": 2}'' = Inl JSONDecodeError\<close>
  by code_simp

lemma object_search_none_iff:
  "re_search False json_object_rx s = None
   \<longleftrightarrow> \<not> (\<exists>pre mid post. s = pre @ ''{'' @ mid @ ''}'' @ post)"
  unfolding json_object_rx_def using bracket_search_none_iff [of "CHR ''{''" "CHR ''}''" s]
  by simp

lemma array_search_none_iff:
  "re_search False json_array_rx s = None
   \<longleftrightarrow> \<not> (\<exists>pre mid post. s = pre @ ''['' @ mid @ '']'' @ post)"
  unfolding json_array_rx_def using bracket_search_none_iff [of "CHR ''[''" "CHR '']''" s]
  by simp

text \<open>
  Claim C4. The pattern \<open>\{.*\}\<close> finds the span from the first \<open>{\<close> of the completion to its
  last \<open>}\<close>, whatever lies between them (newlines and further braces included), and finds
  nothing exactly when no \<open>{\<close> has a \<open>}\<close> after it; \<open>\[.*\]\<close> does the same with \<open>[\<close> and \<open>]\<close>.
  The services hand exactly that span of the stripped completion to the decoder, and their
  result depends on the completion through the decoder's answer on it alone. On the
  completion \<open>noise noise {"score": 80} trailing\<close> scoring and enhancement return the object
  with the one item \<open>score\<close>, 80. Braces are not balanced: of two objects in one completion
  the span runs from the first \<open>{\<close> to the last \<open>}\<close>, which is not a JSON text.
\<close>

theorem greedy_span_is_parsed:
  \<open>(CHR ''{'' \<notin> set pre \<and> CHR ''}'' \<notin> set post
      \<longrightarrow> re_search False json_object_rx (pre @ ''{'' @ mid @ ''}'' @ post)
            = Some (''{'' @ mid @ ''}'', None))
   \<and> (CHR ''['' \<notin> set pre \<and> CHR '']'' \<notin> set post
      \<longrightarrow> re_search False json_array_rx (pre @ ''['' @ mid @ '']'' @ post)
            = Some (''['' @ mid @ '']'', None))
   \<and> (re_search False json_object_rx s = None
        \<longleftrightarrow> \<not> (\<exists>pre mid post. s = pre @ ''{'' @ mid @ ''}'' @ post))
   \<and> (re_search False json_array_rx s = None
        \<longleftrightarrow> \<not> (\<exists>pre mid post. s = pre @ ''['' @ mid @ '']'' @ post))
   \<and> (g (ats_prompt r j) = Inr completion \<and> py_strip completion = pre @ ''{'' @ mid @ ''}'' @ post
        \<and> CHR ''{'' \<notin> set pre \<and> CHR ''}'' \<notin> set post
      \<longrightarrow> calculate_ats_score g l r j =
            (case l (''{'' @ mid @ ''}'') of
               Inl e \<Rightarrow> Inr get_default_score
             | Inr result \<Rightarrow>
                 (case dict_get result ''score'' (JString ''N/A'') of
                    Inl e \<Rightarrow> Inr get_default_score
                  | Inr _ \<Rightarrow> Inr result)))
   \<and> (g (enhance_prompt dumps d j) = Inr completion
        \<and> py_strip completion = pre @ ''{'' @ mid @ ''}'' @ post
        \<and> CHR ''{'' \<notin> set pre \<and> CHR ''}'' \<notin> set post
      \<longrightarrow> enhance_resume_content g l dumps d j =
            (case l (''{'' @ mid @ ''}'') of Inl e \<Rightarrow> Inr d | Inr enhanced_data \<Rightarrow> Inr enhanced_data))
   \<and> (g (suggest_prompt r) = Inr completion
        \<and> py_strip completion = pre @ ''['' @ mid @ '']'' @ post
        \<and> CHR ''['' \<notin> set pre \<and> CHR '']'' \<notin> set post
      \<longrightarrow> suggest_improvements g l r =
            (case l (''['' @ mid @ '']'') of
               Inl e \<Rightarrow> Inr (JArray [])
             | Inr suggestions \<Rightarrow>
                 (case py_len suggestions of
                    Inl e \<Rightarrow> Inr (JArray [])
                  | Inr _ \<Rightarrow> Inr suggestions)))
   \<and> calculate_ats_score (\<lambda>p. Inr ''noise noise {"score": 80} trailing'') json_loads r j
       = Inr (JObject [(''score'', JInt 80)])
   \<and> enhance_resume_content (\<lambda>p. Inr ''noise noise {"score": 80} trailing'') json_loads dumps d j
       = Inr (JObject [(''score'', JInt 80)])
   \<and> re_search False json_object_rx ''{"a": 1} and {"b": 2}''
       = Some (''{"a": 1} and {"b": 2}'', None)
   \<and> json_loads ''{"a": 1} and {"b": 2}'' = Inl JSONDecodeError\<close>
  using object_search_span [of pre post mid] array_search_span [of pre post mid]
    calculate_ats_score_span [of g r j completion pre mid post l]
    enhance_resume_content_span [of g dumps d j completion pre mid post l]
    suggest_improvements_span [of g r completion pre mid post l]
  by (simp only: object_search_none_iff array_search_none_iff calculate_ats_score_noise
      enhance_resume_content_noise two_objects_span two_objects_rejected) blast

theorem greedy_span_is_parsed_witness:
  \<open>re_search False json_object_rx ''noise noise {"score": 80} trailing''
     = Some (''{"score": 80}'', None)
   \<and> re_search False json_array_rx ''Here: ["a", "b"] and [1]'' = Some (''["a", "b"] and [1]'', None)
   \<and> calculate_ats_score (\<lambda>p. Inr ''  {"score": 80}  '') json_loads ''Python developer'' []
     = Inr (JObject [(''score'', JInt 80)])\<close>
proof (intro conjI)
  show \<open>re_search False json_object_rx ''noise noise {"score": 80} trailing''
     = Some (''{"score": 80}'', None)\<close>
    using greedy_span_is_parsed [of \<open>''noise noise ''\<close> \<open>'' trailing''\<close> \<open>''"score": 80''\<close>]
    by simp
  show \<open>re_search False json_array_rx ''Here: ["a", "b"] and [1]'' = Some (''["a", "b"] and [1]'', None)\<close>
    using greedy_span_is_parsed [of \<open>''Here: ''\<close> \<open>[]\<close> \<open>''"a", "b"] and [1''\<close>]
    by simp
  have s1: \<open>py_strip ''  {"score": 80}  '' = [] @ ''{'' @ ''"score": 80'' @ ''}'' @ []\<close>
    by (simp add: py_strip_def py_lstrip_def py_rstrip_def py_isspace_def)
  show \<open>calculate_ats_score (\<lambda>p. Inr ''  {"score": 80}  '') json_loads ''Python developer'' []
     = Inr (JObject [(''score'', JInt 80)])\<close>
    using greedy_span_is_parsed
      [of "[]" "[]" \<open>''"score": 80''\<close> _ \<open>\<lambda>p. Inr ''  {"score": 80}  ''\<close> "''Python developer''" "[]"
          \<open>''  {"score": 80}  ''\<close> json_loads] s1 loads_score_80
    by (simp add: dict_get_def)
qed

section \<open>Score comparison and keyword density\<close>

lemma format_1f_35: "format_1f 35 = ''35.0''"
  by (simp add: format_1f_def round_half_even_def show_nat.simps digit_char_def)

lemma format_1f_pct: "format_1f (35 / 60 * 100) = ''58.3''"
  by (simp add: format_1f_def round_half_even_def show_nat.simps digit_char_def)

lemma compare_scores_60_95:
  "compare_scores 60 95 =
     [emoji_star @ '' Excellent improvement! Score increased by 35.0 points (58.3%)'',
      ''Your resume is now highly optimized for ATS systems'']"
  using format_1f_35 format_1f_pct by (simp add: compare_scores_def)

lemma compare_scores_top_tier:
  "30 < enhanced - original \<Longrightarrow>
   compare_scores original enhanced =
     [emoji_star @ '' Excellent improvement! Score increased by '' @ format_1f (enhanced - original)
        @ '' points (''
        @ format_1f (if 0 < original then (enhanced - original) / original * 100 else 0) @ ''%)'',
      ''Your resume is now highly optimized for ATS systems'']"
  by (simp add: compare_scores_def Let_def)

lemma compare_scores_negative:
  "enhanced - original < 0 \<Longrightarrow>
   compare_scores original enhanced = [''Score maintained from original version'']"
  by (simp add: compare_scores_def Let_def)

text \<open>
  Claim C7, as stated: \<open>compare_scores(60, 95)\<close> has two messages and the first contains both
  \<open>35.0\<close> and \<open>133.3%\<close>. The first message is
  \<open>Excellent improvement! Score increased by 35.0 points (58.3%)\<close> after its emoji, which
  does not contain \<open>133.3%\<close>.
\<close>

theorem compare_scores_60_95_counterexample:
  "\<not> (length (compare_scores 60 95) = 2
      \<and> sublist ''35.0'' (hd (compare_scores 60 95))
      \<and> sublist ''133.3%'' (hd (compare_scores 60 95)))"
  by (simp add: compare_scores_60_95 emoji_star_def sublist_Cons_right)

text \<open>
  Claim C7, amended. The percentage is \<open>diff / original * 100\<close> when \<open>original > 0\<close> and 0
  otherwise, printed with one decimal like \<open>diff\<close>: a difference above 30 gives two messages,
  the first with both numbers. \<open>compare_scores(60, 95)\<close> returns exactly two messages, the
  first containing \<open>35.0\<close> and \<open>58.3%\<close>; a negative difference, as in \<open>compare_scores(60, 58)\<close>,
  gives the single message \<open>Score maintained from original version\<close>.
\<close>

theorem compare_scores_examples:
  "(30 < enhanced - original \<longrightarrow>
      compare_scores original enhanced =
        [emoji_star @ '' Excellent improvement! Score increased by ''
           @ format_1f (enhanced - original) @ '' points (''
           @ format_1f (if 0 < original then (enhanced - original) / original * 100 else 0)
           @ ''%)'',
         ''Your resume is now highly optimized for ATS systems''])
   \<and> (enhanced - original < 0 \<longrightarrow>
      compare_scores original enhanced = [''Score maintained from original version''])
   \<and> length (compare_scores 60 95) = 2
   \<and> hd (compare_scores 60 95)
       = emoji_star @ '' Excellent improvement! Score increased by 35.0 points (58.3%)''
   \<and> sublist ''35.0'' (hd (compare_scores 60 95))
   \<and> sublist ''58.3%'' (hd (compare_scores 60 95))
   \<and> compare_scores 60 58 = [''Score maintained from original version'']
   \<and> sublist ''maintained from original version'' (hd (compare_scores 60 58))"
proof (intro conjI impI)
  show "compare_scores original enhanced =
        [emoji_star @ '' Excellent improvement! Score increased by ''
           @ format_1f (enhanced - original) @ '' points (''
           @ format_1f (if 0 < original then (enhanced - original) / original * 100 else 0)
           @ ''%)'',
         ''Your resume is now highly optimized for ATS systems'']"
    if "30 < enhanced - original"
    using that by (rule compare_scores_top_tier)
  show "compare_scores original enhanced = [''Score maintained from original version'']"
    if "enhanced - original < 0"
    using that by (rule compare_scores_negative)
  show "length (compare_scores 60 95) = 2"
    by (simp add: compare_scores_60_95)
  show "hd (compare_scores 60 95)
       = emoji_star @ '' Excellent improvement! Score increased by 35.0 points (58.3%)''"
    by (simp add: compare_scores_60_95)
  show "sublist ''35.0'' (hd (compare_scores 60 95))"
    by (simp add: compare_scores_60_95 emoji_star_def sublist_Cons_right)
  show "sublist ''58.3%'' (hd (compare_scores 60 95))"
    by (simp add: compare_scores_60_95 emoji_star_def sublist_Cons_right)
  show "compare_scores 60 58 = [''Score maintained from original version'']"
    by (rule compare_scores_negative) simp
  then show "sublist ''maintained from original version'' (hd (compare_scores 60 58))"
    by (simp add: sublist_Cons_right)
qed

theorem compare_scores_examples_witness:
  "(30 :: real) < 100 - 50
   \<and> compare_scores 50 100 =
       [emoji_star @ '' Excellent improvement! Score increased by 50.0 points (100.0%)'',
        ''Your resume is now highly optimized for ATS systems'']
   \<and> (70 :: real) - 80 < 0
   \<and> compare_scores 80 70 = [''Score maintained from original version'']"
proof -
  have a: "format_1f (100 - 50) = ''50.0''"
    by (simp add: format_1f_def round_half_even_def show_nat.simps digit_char_def)
  have b: "format_1f ((100 - 50) / 50 * 100) = ''100.0''"
    by (simp add: format_1f_def round_half_even_def show_nat.simps digit_char_def)
  show ?thesis
    using compare_scores_examples [of 100 50] compare_scores_examples [of 70 80] a b
    by simp
qed

subsection \<open>Keyword density\<close>













section \<open>Line scanning\<close>

subsection \<open>Lines\<close>

lemma split_nl_not_Nil: "split_nl s \<noteq> []"
  by (induction s) (auto split: list.splits)

lemma split_nl_single: "CHR ''\<newline>'' \<notin> set a \<Longrightarrow> split_nl a = [a]"
  by (induction a) auto

lemma split_nl_append:
  "CHR ''\<newline>'' \<notin> set a \<Longrightarrow> split_nl (a @ CHR ''\<newline>'' # b) = a # split_nl b"
  by (induction a) auto

lemma split_nl_no_newline: "l \<in> set (split_nl s) \<Longrightarrow> CHR ''\<newline>'' \<notin> set l"
proof (induction s arbitrary: l)
  case Nil
  then show ?case by simp
next
  case (Cons c s)
  show ?case
  proof (cases "c = CHR ''\<newline>''")
    case True
    with Cons show ?thesis by auto
  next
    case False
    obtain m ms where ms: "split_nl s = m # ms"
      using split_nl_not_Nil [of s] by (cases "split_nl s") auto
    with Cons.prems False have "l = c # m \<or> l \<in> set ms" by auto
    with Cons.IH ms False show ?thesis by auto
  qed
qed

lemma split_nl_join_nl:
  "ls \<noteq> [] \<Longrightarrow> \<forall>l\<in>set ls. CHR ''\<newline>'' \<notin> set l \<Longrightarrow> split_nl (join_nl ls) = ls"
proof (induction ls rule: join_nl.induct)
  case 1
  then show ?case by simp
next
  case (2 l)
  then show ?case by (simp add: split_nl_single)
next
  case (3 l m ls)
  then show ?case by (simp add: split_nl_append)
qed

lemma join_nl_Cons: "ls \<noteq> [] \<Longrightarrow> join_nl (l # ls) = l @ CHR ''\<newline>'' # join_nl ls"
  by (cases ls) auto

lemma join_nl_append:
  "xs \<noteq> [] \<Longrightarrow> ys \<noteq> [] \<Longrightarrow> join_nl (xs @ ys) = join_nl xs @ CHR ''\<newline>'' # join_nl ys"
  by (induction xs rule: join_nl.induct) (auto simp: join_nl_Cons)

subsection \<open>Whitespace and lower case\<close>

lemma py_isspace_lower [simp]: "py_isspace (py_lower_char c) = py_isspace c"
proof -
  have "of_char c < (256 :: nat)" by simp
  then show ?thesis
    unfolding py_isspace_def py_lower_char_def Let_def
    by (auto simp: char_of_eq_iff take_bit_eq_mod)
qed

lemma dropWhile_space_lower:
  "dropWhile py_isspace (map py_lower_char s) = map py_lower_char (dropWhile py_isspace s)"
  by (induction s) auto

lemma py_strip_lower: "py_strip (py_lower s) = py_lower (py_strip s)"
  by (simp add: py_strip_def py_lstrip_def py_rstrip_def py_lower_def dropWhile_space_lower
      rev_map)

lemma blank_lower: "is_blank line \<Longrightarrow> py_strip (py_lower line) = []"
  unfolding is_blank_def py_strip_lower by (simp add: py_lower_def)

subsection \<open>Finding the section of a line\<close>

lemma find_section_Nil: "find_section [] = None"
  by (simp add: find_section_def section_keywords_def)

lemma find_section_names:
  "find_section ll = Some sec \<Longrightarrow>
   sec \<in> {''education'', ''experience'', ''skills'', ''projects'', ''certifications'', ''summary''}"
proof -
  assume "find_section ll = Some sec"
  then obtain p where "find (\<lambda>(section, keywords).
        list_ex (\<lambda>keyword. sublist keyword ll) keywords \<and> length ll < 50) section_keywords = Some p"
    and "sec = fst p"
    by (auto simp: find_section_def)
  then have "p \<in> set section_keywords"
    by (auto simp: find_Some_iff intro: nth_mem)
  with \<open>sec = fst p\<close> show ?thesis
    by (auto simp: section_keywords_def)
qed

lemma find_section_None_iff:
  "find_section ll = None \<longleftrightarrow>
   \<not> (length ll < 50
      \<and> (\<exists>(section, keywords)\<in>set section_keywords. \<exists>keyword\<in>set keywords. sublist keyword ll))"
  by (auto simp: find_section_def find_None_iff list_ex_iff)

lemma is_boundary_iff:
  "is_boundary line \<longleftrightarrow>
   length (py_strip (py_lower line)) < 50
   \<and> (\<exists>(section, keywords)\<in>set section_keywords.
        \<exists>keyword\<in>set keywords. sublist keyword (py_strip (py_lower line)))"
  by (simp add: is_boundary_def find_section_None_iff)

lemma blank_not_boundary: "is_blank line \<Longrightarrow> \<not> is_boundary line"
  by (simp add: is_boundary_def blank_lower find_section_Nil)

subsection \<open>One step of the loop\<close>

lemma scan_line_boundary:
  "find_section (py_strip (py_lower line)) = Some sec \<Longrightarrow>
   scan_line st line =
     \<lparr>sections = save_section st, current_section = Some sec, section_content = []\<rparr>"
  by (simp add: scan_line_def)

lemma scan_line_blank: "is_blank line \<Longrightarrow> scan_line st line = st"
  by (simp add: scan_line_def blank_lower find_section_Nil is_blank_def)

lemma scan_line_before_first:
  "\<not> is_boundary line \<Longrightarrow> current_section st = None \<Longrightarrow> scan_line st line = st"
  by (auto simp: scan_line_def is_boundary_def)

lemma scan_line_content:
  "\<not> is_boundary line \<Longrightarrow> \<not> is_blank line \<Longrightarrow> current_section st = Some cur \<Longrightarrow>
   cur \<noteq> [] \<Longrightarrow> scan_line st line = st\<lparr>section_content := section_content st @ [line]\<rparr>"
  by (auto simp: scan_line_def is_boundary_def is_blank_def)

lemma save_section_commit:
  "current_section st = Some cur \<Longrightarrow> cur \<noteq> [] \<Longrightarrow> section_content st \<noteq> [] \<Longrightarrow>
   save_section st = AList.update cur (join_nl (section_content st)) (sections st)"
  by (simp add: save_section_def)

lemma save_section_nothing:
  "current_section st = None \<or> section_content st = [] \<Longrightarrow> save_section st = sections st"
  by (auto simp: save_section_def split: option.splits)

subsection \<open>The invariant of the loop\<close>

lemma update_members:
  "p \<in> set (AList.update k v al) \<Longrightarrow> p = (k, v) \<or> p \<in> set al"
  by (induction al) (auto split: if_splits)

lemma update_known_key:
  "k \<in> set (map fst al) \<Longrightarrow> map fst (AList.update k v al) = map fst al"
  by (simp add: update_keys)

lemma find_section_in_names:
  "find_section ll = Some sec \<Longrightarrow> sec \<in> set section_names"
  using find_section_names [of ll sec] by (auto simp: section_names_def)

lemma section_names_not_Nil: "cur \<in> set section_names \<Longrightarrow> cur \<noteq> []"
  by (auto simp: section_names_def)

lemma scan_ok_init:
  "scan_ok \<lparr>sections = empty_sections, current_section = None, section_content = []\<rparr>"
  by (simp add: scan_ok_def empty_sections_def section_names_def joined_content_def)

lemma save_section_ok:
  assumes "scan_ok st"
  shows "map fst (save_section st) = section_names"
    and "\<forall>v\<in>snd ` set (save_section st). joined_content v"
proof -
  show "map fst (save_section st) = section_names"
    using assms by (auto simp: save_section_def scan_ok_def update_known_key split: option.splits)
  show "\<forall>v\<in>snd ` set (save_section st). joined_content v"
  proof (cases "\<exists>cur. current_section st = Some cur \<and> cur \<noteq> [] \<and> section_content st \<noteq> []")
    case True
    then obtain cur where cur: "current_section st = Some cur" "cur \<noteq> []" "section_content st \<noteq> []"
      by blast
    then have s: "save_section st = AList.update cur (join_nl (section_content st)) (sections st)"
      by (rule save_section_commit)
    have "joined_content (join_nl (section_content st))"
      unfolding joined_content_def using assms cur by (auto simp: scan_ok_def)
    then show ?thesis
      unfolding s using assms by (auto simp: scan_ok_def dest!: update_members)
  next
    case False
    then have "save_section st = sections st"
      by (auto simp: save_section_def split: option.splits)
    then show ?thesis using assms by (simp add: scan_ok_def)
  qed
qed

lemma scan_line_ok:
  assumes "scan_ok st" and "CHR ''\<newline>'' \<notin> set line"
  shows "scan_ok (scan_line st line)"
proof (cases "find_section (py_strip (py_lower line))")
  case (Some sec)
  then have "scan_line st line =
      \<lparr>sections = save_section st, current_section = Some sec, section_content = []\<rparr>"
    by (rule scan_line_boundary)
  then show ?thesis
    using save_section_ok [OF assms(1)] find_section_in_names [OF Some]
    by (simp add: scan_ok_def)
next
  case None
  then have nb: "\<not> is_boundary line" by (simp add: is_boundary_def)
  show ?thesis
  proof (cases "current_section st \<noteq> None \<and> current_section st \<noteq> Some [] \<and> py_strip line \<noteq> []")
    case True
    then have "scan_line st line = st\<lparr>section_content := section_content st @ [line]\<rparr>"
      using None by (simp add: scan_line_def)
    moreover have "content_line line"
      using nb True assms(2) by (simp add: content_line_def is_blank_def)
    ultimately show ?thesis
      using assms(1) by (simp add: scan_ok_def)
  next
    case False
    then have "scan_line st line = st"
      using None by (auto simp: scan_line_def)
    then show ?thesis using assms(1) by simp
  qed
qed

lemma foldl_scan_ok:
  "scan_ok st \<Longrightarrow> \<forall>l\<in>set ls. CHR ''\<newline>'' \<notin> set l \<Longrightarrow> scan_ok (foldl scan_line st ls)"
  by (induction ls arbitrary: st) (auto simp: scan_line_ok)

lemma extract_sections_ok:
  "scan_ok (foldl scan_line
      \<lparr>sections = empty_sections, current_section = None, section_content = []\<rparr> (split_nl s))"
  by (rule foldl_scan_ok [OF scan_ok_init]) (simp add: split_nl_no_newline)

lemma extract_sections_keys: "map fst (extract_sections s) = section_names"
  unfolding extract_sections_def by (rule save_section_ok(1) [OF extract_sections_ok])

lemma extract_sections_values:
  "(sec, v) \<in> set (extract_sections s) \<Longrightarrow> joined_content v"
  using save_section_ok(2) [OF extract_sections_ok, of s]
  unfolding extract_sections_def by force

lemma joined_content_lines:
  assumes "joined_content v" and "l \<in> set (split_nl v)"
  shows "\<not> is_boundary l" and "v \<noteq> [] \<Longrightarrow> \<not> is_blank l"
proof -
  show "\<not> is_boundary l"
  proof (cases "v = []")
    case True
    with assms(2) have "l = []" by simp
    then show ?thesis
      by (simp add: is_boundary_def py_strip_def py_lstrip_def py_rstrip_def py_lower_def
          find_section_Nil)
  next
    case False
    then obtain ls where ls: "ls \<noteq> []" "\<forall>l\<in>set ls. content_line l" "v = join_nl ls"
      using assms(1) by (auto simp: joined_content_def)
    then have "split_nl v = ls"
      by (simp add: split_nl_join_nl content_line_def)
    with assms(2) ls(2) show ?thesis by (auto simp: content_line_def)
  qed
  show "\<not> is_blank l" if nonempty: "v \<noteq> []"
  proof -
    obtain ls where ls: "ls \<noteq> []" "\<forall>l\<in>set ls. content_line l" "v = join_nl ls"
      using assms(1) nonempty by (auto simp: joined_content_def)
    then have "split_nl v = ls"
      by (simp add: split_nl_join_nl content_line_def)
    with assms(2) ls(2) show ?thesis by (auto simp: content_line_def)
  qed
qed

subsection \<open>A section that no line starts\<close>

lemma map_of_update_other:
  "k \<noteq> sec \<Longrightarrow> map_of (AList.update k v al) sec = map_of al sec"
  by (simp add: update_conv')

lemma scan_line_untouched:
  assumes "find_section (py_strip (py_lower line)) \<noteq> Some sec"
    and "map_of (sections st) sec = Some []" and "current_section st \<noteq> Some sec"
  shows "map_of (sections (scan_line st line)) sec = Some []
    \<and> current_section (scan_line st line) \<noteq> Some sec"
proof -
  have "map_of (save_section st) sec = Some []"
    using assms(2,3) by (auto simp: save_section_def map_of_update_other split: option.splits)
  then show ?thesis
    using assms by (auto simp: scan_line_def Let_def split: option.splits)
qed

lemma foldl_scan_untouched:
  "\<forall>l\<in>set ls. find_section (py_strip (py_lower l)) \<noteq> Some sec \<Longrightarrow>
   map_of (sections st) sec = Some [] \<Longrightarrow> current_section st \<noteq> Some sec \<Longrightarrow>
   map_of (sections (foldl scan_line st ls)) sec = Some []
   \<and> current_section (foldl scan_line st ls) \<noteq> Some sec"
proof (induction ls arbitrary: st)
  case Nil
  then show ?case by simp
next
  case (Cons l ls)
  have "map_of (sections (scan_line st l)) sec = Some []
      \<and> current_section (scan_line st l) \<noteq> Some sec"
    using Cons.prems by (intro scan_line_untouched) auto
  then show ?case
    using Cons.IH [of "scan_line st l"] Cons.prems(1) by simp
qed

lemma extract_sections_untouched:
  assumes "sec \<in> set section_names"
    and "\<forall>l\<in>set (split_nl s). find_section (py_strip (py_lower l)) \<noteq> Some sec"
  shows "map_of (extract_sections s) sec = Some []"
proof -
  let ?init = "\<lparr>sections = empty_sections, current_section = None, section_content = []\<rparr>"
  have "map_of (sections ?init) sec = Some []"
    using assms(1) by (auto simp: section_names_def empty_sections_def)
  then have "map_of (sections (foldl scan_line ?init (split_nl s))) sec = Some []
      \<and> current_section (foldl scan_line ?init (split_nl s)) \<noteq> Some sec"
    using assms(2) by (intro foldl_scan_untouched) auto
  then show ?thesis
    unfolding extract_sections_def
    by (auto simp: save_section_def map_of_update_other split: option.splits)
qed

subsection \<open>Runs of lines\<close>

lemma split_nl_append_lines:
  "split_nl (a @ CHR ''\<newline>'' # b) = split_nl a @ split_nl b"
proof (induction a)
  case Nil
  show ?case by simp
next
  case (Cons c a)
  obtain m ms where "split_nl a = m # ms"
    using split_nl_not_Nil [of a] by (cases "split_nl a") auto
  with Cons show ?case by simp
qed

lemma foldl_scan_before_first:
  "\<forall>l\<in>set ls. \<not> is_boundary l \<Longrightarrow> current_section st = None \<Longrightarrow> foldl scan_line st ls = st"
  by (induction ls) (simp_all add: scan_line_before_first)

lemma foldl_scan_content:
  "\<forall>l\<in>set ls. \<not> is_boundary l \<and> \<not> is_blank l \<Longrightarrow> current_section st = Some cur \<Longrightarrow>
   cur \<noteq> [] \<Longrightarrow> foldl scan_line st ls = st\<lparr>section_content := section_content st @ ls\<rparr>"
proof (induction ls arbitrary: st)
  case Nil
  then show ?case by simp
next
  case (Cons l ls)
  have step: "scan_line st l = st\<lparr>section_content := section_content st @ [l]\<rparr>"
    using Cons.prems by (intro scan_line_content) auto
  have "foldl scan_line (scan_line st l) ls
      = (scan_line st l)\<lparr>section_content := section_content (scan_line st l) @ ls\<rparr>"
    using Cons.prems by (intro Cons.IH) (auto simp: step)
  then show ?case by (simp add: step)
qed

lemma foldl_scan_skip_blank:
  "foldl scan_line st (filter (\<lambda>l. \<not> is_blank l) ls) = foldl scan_line st ls"
  by (induction ls arbitrary: st) (simp_all add: scan_line_blank)

lemma extract_sections_discard:
  assumes "\<forall>l\<in>set (split_nl p). \<not> is_boundary l"
  shows "extract_sections (p @ CHR ''\<newline>'' # rest) = extract_sections rest"
  using foldl_scan_before_first [OF assms]
  by (simp add: extract_sections_def split_nl_append_lines)

lemma extract_lines_section:
  assumes b: "find_section (py_strip (py_lower b)) = Some sec"
    and ls: "ls \<noteq> []" "\<forall>l\<in>set ls. \<not> is_boundary l \<and> \<not> is_blank l"
  shows "save_section (foldl scan_line
      \<lparr>sections = empty_sections, current_section = None, section_content = []\<rparr> (b # ls))
    = AList.update sec (join_nl ls) empty_sections"
proof -
  let ?init = "\<lparr>sections = empty_sections, current_section = None, section_content = []\<rparr>"
  let ?st = "\<lparr>sections = empty_sections, current_section = Some sec, section_content = []\<rparr>"
  have sec: "sec \<noteq> []"
    using find_section_in_names [OF b] by (rule section_names_not_Nil)
  have "scan_line ?init b = ?st"
    using scan_line_boundary [OF b, of ?init] by (simp add: save_section_def)
  moreover have "foldl scan_line ?st ls = ?st\<lparr>section_content := section_content ?st @ ls\<rparr>"
    using ls(2) _ sec by (rule foldl_scan_content) simp
  ultimately show ?thesis
    using ls(1) sec by (simp add: save_section_def)
qed

lemma extract_two_lines:
  assumes "find_section (py_strip (py_lower b)) = Some sec" and "CHR ''\<newline>'' \<notin> set b"
    and "content_line l1" and "content_line l2"
  shows "extract_sections (b @ CHR ''\<newline>'' # l1 @ CHR ''\<newline>'' # l2)
    = AList.update sec (l1 @ CHR ''\<newline>'' # l2) empty_sections"
proof -
  have "split_nl (b @ CHR ''\<newline>'' # l1 @ CHR ''\<newline>'' # l2) = [b, l1, l2]"
    using assms(2-4) by (simp add: split_nl_append split_nl_single content_line_def)
  then show ?thesis
    unfolding extract_sections_def
    using extract_lines_section [OF assms(1), of "[l1, l2]"] assms(3,4)
    by (simp add: content_line_def)
qed

lemma map_of_update_names:
  "sec \<in> set section_names \<Longrightarrow> map_of (AList.update sec v empty_sections) sec = Some v"
  by (simp add: update_conv')

lemma boundary_not_blank:
  "find_section (py_strip (py_lower b)) = Some sec \<Longrightarrow> \<not> is_blank b"
  using blank_not_boundary [of b] by (auto simp: is_boundary_def)

lemma extract_across_blanks:
  assumes "find_section (py_strip (py_lower b)) = Some sec" and "CHR ''\<newline>'' \<notin> set b"
    and "content_line l1" and "content_line l2"
    and "\<forall>x\<in>set blanks. is_blank x \<and> CHR ''\<newline>'' \<notin> set x"
  shows "extract_sections (join_nl ([b, l1] @ blanks @ [l2]))
    = AList.update sec (l1 @ CHR ''\<newline>'' # l2) empty_sections"
proof -
  let ?init = "\<lparr>sections = empty_sections, current_section = None, section_content = []\<rparr>"
  have "split_nl (join_nl ([b, l1] @ blanks @ [l2])) = [b, l1] @ blanks @ [l2]"
    using assms(2-5) by (intro split_nl_join_nl) (auto simp: content_line_def)
  moreover have "filter (\<lambda>l. \<not> is_blank l) ([b, l1] @ blanks @ [l2]) = [b, l1, l2]"
    using assms(3-5) boundary_not_blank [OF assms(1)] by (simp add: content_line_def)
  then have "foldl scan_line ?init ([b, l1] @ blanks @ [l2]) = foldl scan_line ?init [b, l1, l2]"
    using foldl_scan_skip_blank [of ?init "[b, l1] @ blanks @ [l2]"] by simp
  ultimately show ?thesis
    unfolding extract_sections_def
    using extract_lines_section [OF assms(1), of "[l1, l2]"] assms(3,4)
    by (simp add: content_line_def)
qed

section \<open>The anchored patterns\<close>

subsection \<open>Patterns without a group\<close>

lemma no_group_run:
  "no_group r \<Longrightarrow> rx_run ic r (s, g) = map (\<lambda>p. (fst p, g)) (rx_run ic r (s, None))"
proof (induction r arbitrary: s g)
  case (Cat a b)
  define A where "A = rx_run ic a (s, None)"
  have a: "rx_run ic a (s, g) = map (\<lambda>p. (fst p, g)) A"
    unfolding A_def using Cat.prems by (intro Cat.IH(1)) simp
  have b: "rx_run ic b (t, h) = map (\<lambda>q. (fst q, h)) (rx_run ic b (t, None))" for t h
    using Cat.prems by (intro Cat.IH(2)) simp
  have "concat (map (rx_run ic b) (map (\<lambda>p. (fst p, g)) A))
      = map (\<lambda>p. (fst p, g)) (concat (map (rx_run ic b) A))"
  proof (induction A)
    case Nil
    show ?case by simp
  next
    case (Cons p A)
    have "rx_run ic b (fst p, g) = map (\<lambda>q. (fst q, g)) (rx_run ic b (fst p, None))"
      by (rule b)
    moreover have "map (\<lambda>q. (fst q, g)) (rx_run ic b p)
        = map (\<lambda>q. (fst q, g)) (rx_run ic b (fst p, None))"
      using b [of "fst p" "snd p"] by (simp add: comp_def)
    ultimately show ?case using Cons by simp
  qed
  then show ?case
    unfolding rx_run.simps a A_def .
next
  case (Or a b)
  have "rx_run ic a (s, g) = map (\<lambda>p. (fst p, g)) (rx_run ic a (s, None))"
    using Or.prems by (intro Or.IH(1)) simp
  moreover have "rx_run ic b (s, g) = map (\<lambda>p. (fst p, g)) (rx_run ic b (s, None))"
    using Or.prems by (intro Or.IH(2)) simp
  ultimately show ?case by simp
next
  case (Ahead a)
  have "rx_run ic a (s, g) = map (\<lambda>p. (fst p, g)) (rx_run ic a (s, None))"
    using Ahead.prems by (intro Ahead.IH) simp
  then show ?case
    by (cases "rx_run ic a (s, None)") (auto split: list.splits)
qed (simp_all add: comp_def)

lemma no_group_empty_iff:
  "no_group r \<Longrightarrow> rx_run ic r (s, g) = [] \<longleftrightarrow> rx_run ic r (s, None) = []"
  using no_group_run [of r ic s g] by simp

lemma no_group_alts: "\<forall>r\<in>set rs. no_group r \<Longrightarrow> no_group (alts rs)"
  by (induction rs rule: alts.induct) auto

lemma no_group_header: "no_group (section_header sec)"
  by (simp add: section_header_def phrase_def)

lemma no_group_stop: "no_group (section_stop sec)"
  by (simp add: section_stop_def phrase_def)

text \<open>What ends a capture takes no input and leaves the group as it is.\<close>

lemma stop_run:
  "rx_run True (section_stop sec) (s, g) = (if stops_at sec s then [(s, g)] else [])"
proof -
  have shape: "section_stop sec = Eos \<or> (\<exists>l. section_stop sec = Ahead l \<and> no_group l)"
    by (simp add: section_stop_def phrase_def)
  show ?thesis
  proof (cases "section_stop sec = Eos")
    case True
    then show ?thesis by (auto simp: stops_at_def)
  next
    case False
    then obtain l where l: "section_stop sec = Ahead l" "no_group l"
      using shape by blast
    have "rx_run True l (s, g) = map (\<lambda>p. (fst p, g)) (rx_run True l (s, None))"
      using l(2) by (rule no_group_run)
    then show ?thesis
      unfolding stops_at_def l(1)
      by (cases "rx_run True l (s, None)") (auto split: list.splits)
  qed
qed

subsection \<open>The lazy capture\<close>

lemma tails_self: "\<exists>ts. tails s = s # ts"
  by (cases s) auto

lemma first_stop:
  assumes "\<forall>v\<in>set (tails cap). v \<noteq> [] \<longrightarrow> \<not> P (v @ t)" and "P t"
  shows "\<exists>rest. concat (map (\<lambda>x. if P x then [(x, f x)] else []) (tails (cap @ t)))
    = (t, f t) # rest"
  using assms(1)
proof (induction cap)
  case Nil
  obtain ts where "tails t = t # ts" using tails_self by blast
  with assms(2) show ?case by simp
next
  case (Cons c cap)
  have "\<not> P ((c # cap) @ t)" using Cons.prems by simp
  moreover have "\<exists>rest. concat (map (\<lambda>x. if P x then [(x, f x)] else []) (tails (cap @ t)))
      = (t, f t) # rest"
    using Cons.prems by (intro Cons.IH) simp
  ultimately show ?case by simp
qed

lemma capture_run:
  "rx_run True (Cat (Group AnyLazy) (section_stop sec)) (s, g)
   = concat (map (\<lambda>x. if stops_at sec x then [(x, Some (take (length s - length x) s))] else [])
       (tails s))"
  by (simp add: comp_def stop_run cong: if_cong)

lemma capture_first:
  assumes "stops_at sec t" and "\<forall>v\<in>set (tails cap). v \<noteq> [] \<longrightarrow> \<not> stops_at sec (v @ t)"
  shows "\<exists>rest. rx_run True (Cat (Group AnyLazy) (section_stop sec)) (cap @ t, g)
    = (t, Some cap) # rest"
  using first_stop [of cap "stops_at sec" t "\<lambda>x. Some (take (length (cap @ t) - length x) (cap @ t))",
      OF assms(2,1)]
  unfolding capture_run by simp

lemma capture_groups:
  "p \<in> set (rx_run True (Cat (Group AnyLazy) (section_stop sec)) (s, g)) \<Longrightarrow> snd p \<noteq> None"
  unfolding capture_run by (auto split: if_splits)

lemma pattern_run:
  "rx_run True (section_pattern sec) (u, g)
   = concat (map (rx_run True (Cat (Group AnyLazy) (section_stop sec)))
       (rx_run True (section_header sec) (u, g)))"
  by (simp add: section_pattern_def)

lemma pattern_groups:
  "p \<in> set (rx_run True (section_pattern sec) (u, g)) \<Longrightarrow> snd p \<noteq> None"
proof -
  assume "p \<in> set (rx_run True (section_pattern sec) (u, g))"
  then obtain h where
    "p \<in> set (rx_run True (Cat (Group AnyLazy) (section_stop sec)) h)"
    unfolding pattern_run by (auto simp del: rx_run.simps)
  then show ?thesis
    using capture_groups [of p sec "fst h" "snd h"] by simp
qed

lemma header_at_Nil:
  "header_at sec u = [] \<Longrightarrow> rx_run True (section_pattern sec) (u, None) = []"
  unfolding pattern_run by (simp add: header_at_def del: rx_run.simps)

lemma pattern_first:
  assumes "header_at sec u = (cap @ t) # others"
    and "stops_at sec t" and "\<forall>v\<in>set (tails cap). v \<noteq> [] \<longrightarrow> \<not> stops_at sec (v @ t)"
  shows "\<exists>rest. rx_run True (section_pattern sec) (u, None) = (t, Some cap) # rest"
proof -
  obtain g hs where h: "rx_run True (section_header sec) (u, None) = (cap @ t, g) # hs"
    using assms(1) by (auto simp: header_at_def)
  obtain rest where "rx_run True (Cat (Group AnyLazy) (section_stop sec)) (cap @ t, g)
      = (t, Some cap) # rest"
    using capture_first [OF assms(2,3)] by blast
  then show ?thesis
    unfolding pattern_run h by (simp del: rx_run.simps)
qed

subsection \<open>Searching\<close>

lemma search_skip:
  "\<forall>v\<in>set (tails pre). v \<noteq> [] \<longrightarrow> rx_run ic r (v @ u, None) = [] \<Longrightarrow>
   re_search ic r (pre @ u) = re_search ic r u"
  by (induction pre) simp_all

lemma search_here:
  "rx_run ic r (u, None) = (t, g) # rest \<Longrightarrow>
   re_search ic r u = Some (take (length u - length t) u, g)"
  by (cases u) simp_all

lemma search_nowhere:
  "\<forall>v\<in>set (tails s). rx_run ic r (v, None) = [] \<Longrightarrow> re_search ic r s = None"
  by (induction s) simp_all

lemma search_result:
  "re_search ic r s = Some (m, g) \<Longrightarrow> \<exists>u t rest. rx_run ic r (u, None) = (t, g) # rest"
proof (induction s)
  case Nil
  then show ?case by (auto split: list.splits)
next
  case (Cons c s)
  then show ?case by (cases "rx_run ic r (c # s, None)") (auto simp del: rx_run.simps)
qed

lemma search_group:
  "re_search True (section_pattern sec) s = Some m \<Longrightarrow> snd m \<noteq> None"
proof -
  assume "re_search True (section_pattern sec) s = Some m"
  then obtain u t rest where "rx_run True (section_pattern sec) (u, None) = (t, snd m) # rest"
    using search_result [of True "section_pattern sec" s "fst m" "snd m"] by auto
  then have "(t, snd m) \<in> set (rx_run True (section_pattern sec) (u, None))" by simp
  then show ?thesis using pattern_groups by fastforce
qed

lemma pattern_capture:
  assumes "\<forall>v\<in>set (tails pre). v \<noteq> [] \<longrightarrow> header_at sec (v @ u) = []"
    and "header_at sec u = (cap @ t) # others"
    and "stops_at sec t" and "\<forall>v\<in>set (tails cap). v \<noteq> [] \<longrightarrow> \<not> stops_at sec (v @ t)"
  shows "re_search True (section_pattern sec) (pre @ u)
    = Some (take (length u - length t) u, Some cap)"
proof -
  have "re_search True (section_pattern sec) (pre @ u) = re_search True (section_pattern sec) u"
    using assms(1) by (intro search_skip) (simp add: header_at_Nil)
  moreover obtain rest where "rx_run True (section_pattern sec) (u, None) = (t, Some cap) # rest"
    using pattern_first [OF assms(2-4)] by blast
  ultimately show ?thesis by (simp add: search_here del: re_search.simps)
qed

lemma pattern_absent:
  "\<forall>v\<in>set (tails s). header_at sec v = [] \<Longrightarrow> re_search True (section_pattern sec) s = None"
  by (intro search_nowhere) (simp add: header_at_Nil)

subsection \<open>The loop over the patterns\<close>

lemma apply_patterns_result:
  assumes "distinct (map fst ps)"
    and "\<forall>p\<in>set ps. \<forall>m. re_search True (snd p) txt = Some m \<longrightarrow> snd m \<noteq> None"
    and "set (map fst ps) \<subseteq> set (map fst secs)"
  shows "\<exists>m. apply_patterns ps txt secs = Inr m \<and> map fst m = map fst secs
    \<and> (\<forall>sec. map_of m sec =
          (case map_of ps sec of
             None \<Rightarrow> map_of secs sec
           | Some pat \<Rightarrow>
               (case re_search True pat txt of
                  None \<Rightarrow> map_of secs sec
                | Some mt \<Rightarrow> Some (py_strip (the (snd mt))))))"
  using assms
proof (induction ps arbitrary: secs)
  case Nil
  then show ?case by simp
next
  case (Cons p ps)
  obtain k pat where p: "p = (k, pat)" by (cases p)
  have k: "k \<in> set (map fst secs)" and fresh: "map_of ps k = None"
    using Cons.prems p by (auto simp: map_of_eq_None_iff)
  show ?case
  proof (cases "re_search True pat txt")
    case None
    have "\<exists>m. apply_patterns ps txt secs = Inr m \<and> map fst m = map fst secs
      \<and> (\<forall>sec. map_of m sec =
            (case map_of ps sec of
               None \<Rightarrow> map_of secs sec
             | Some pat \<Rightarrow>
                 (case re_search True pat txt of
                    None \<Rightarrow> map_of secs sec
                  | Some mt \<Rightarrow> Some (py_strip (the (snd mt))))))"
      using Cons.prems by (intro Cons.IH) auto
    then show ?thesis
      using None fresh by (auto simp: p)
  next
    case (Some mt)
    then have "snd mt \<noteq> None"
      using Cons.prems(2) by (cases mt) (simp add: p)
    then obtain g1 where g1: "snd mt = Some g1"
      by (cases "snd mt") auto
    let ?secs = "AList.update k (py_strip g1) secs"
    have keys: "map fst ?secs = map fst secs"
      using k by (simp add: update_keys)
    have "\<exists>m. apply_patterns ps txt ?secs = Inr m \<and> map fst m = map fst ?secs
      \<and> (\<forall>sec. map_of m sec =
            (case map_of ps sec of
               None \<Rightarrow> map_of ?secs sec
             | Some pat \<Rightarrow>
                 (case re_search True pat txt of
                    None \<Rightarrow> map_of ?secs sec
                  | Some mt \<Rightarrow> Some (py_strip (the (snd mt))))))"
      using Cons.prems keys by (intro Cons.IH) auto
    then obtain m where m: "apply_patterns ps txt ?secs = Inr m" "map fst m = map fst secs"
      "\<And>sec. map_of m sec =
            (case map_of ps sec of
               None \<Rightarrow> map_of ?secs sec
             | Some pat \<Rightarrow>
                 (case re_search True pat txt of
                    None \<Rightarrow> map_of ?secs sec
                  | Some mt \<Rightarrow> Some (py_strip (the (snd mt)))))"
      using keys by auto
    have "apply_patterns (p # ps) txt secs = Inr m"
      using Some g1 m(1) by (simp add: p)
    moreover have "map_of m sec =
          (case map_of (p # ps) sec of
             None \<Rightarrow> map_of secs sec
           | Some pat \<Rightarrow>
               (case re_search True pat txt of
                  None \<Rightarrow> map_of secs sec
                | Some mt \<Rightarrow> Some (py_strip (the (snd mt)))))" for sec
      using m(3) [of sec] fresh Some g1
      by (auto simp: p update_conv' split: option.splits)
    ultimately show ?thesis using m(2) by blast
  qed
qed

lemma map_of_section_patterns:
  "sec \<in> set text_section_names \<Longrightarrow> map_of section_patterns sec = Some (section_pattern sec)"
  by (auto simp: section_patterns_def text_section_names_def)

lemma extract_text_sections_result:
  "\<exists>m. extract_text_sections txt = Inr m \<and> map fst m = text_section_names
    \<and> (\<forall>sec\<in>set text_section_names. map_of m sec =
          Some (case re_search True (section_pattern sec) txt of
                  None \<Rightarrow> []
                | Some mt \<Rightarrow> py_strip (the (snd mt))))"
proof -
  have "\<exists>m. apply_patterns section_patterns txt empty_text_sections = Inr m
    \<and> map fst m = map fst empty_text_sections
    \<and> (\<forall>sec. map_of m sec =
          (case map_of section_patterns sec of
             None \<Rightarrow> map_of empty_text_sections sec
           | Some pat \<Rightarrow>
               (case re_search True pat txt of
                  None \<Rightarrow> map_of empty_text_sections sec
                | Some mt \<Rightarrow> Some (py_strip (the (snd mt))))))"
  proof (rule apply_patterns_result)
    show "distinct (map fst section_patterns)"
      by (simp add: section_patterns_def)
    show "\<forall>p\<in>set section_patterns. \<forall>m. re_search True (snd p) txt = Some m \<longrightarrow> snd m \<noteq> None"
      using search_group by (auto simp: section_patterns_def)
    show "set (map fst section_patterns) \<subseteq> set (map fst empty_text_sections)"
      by (simp add: section_patterns_def empty_text_sections_def)
  qed
  then obtain m where m: "extract_text_sections txt = Inr m"
    "map fst m = map fst empty_text_sections"
    "\<And>sec. map_of m sec =
          (case map_of section_patterns sec of
             None \<Rightarrow> map_of empty_text_sections sec
           | Some pat \<Rightarrow>
               (case re_search True pat txt of
                  None \<Rightarrow> map_of empty_text_sections sec
                | Some mt \<Rightarrow> Some (py_strip (the (snd mt)))))"
    unfolding extract_text_sections_def by blast
  have "map_of m sec =
          Some (case re_search True (section_pattern sec) txt of
                  None \<Rightarrow> []
                | Some mt \<Rightarrow> py_strip (the (snd mt)))"
    if "sec \<in> set text_section_names" for sec
  proof -
    have "map_of empty_text_sections sec = Some []"
      using that by (auto simp: text_section_names_def empty_text_sections_def)
    then show ?thesis
      using m(3) [of sec] map_of_section_patterns [OF that] by (simp split: option.splits)
  qed
  moreover have "map fst m = text_section_names"
    using m(2) by (simp add: empty_text_sections_def text_section_names_def)
  ultimately show ?thesis using m(1) by blast
qed

section \<open>The section map\<close>

text \<open>
  Claim C3. For every text both segmentations return a map with exactly the six keys
  summary, experience, education, skills, projects and certifications, each once (line
  scanning in the order of its own table, the anchored patterns in theirs). A section that
  no line starts has the empty string under line scanning, and a section whose pattern
  matches nowhere has the empty string under the anchored patterns, which never raise.
\<close>

theorem section_map_keys:
  "map fst (extract_sections s) =
     [''education'', ''experience'', ''skills'', ''projects'', ''certifications'', ''summary'']
   \<and> fst ` set (extract_sections s) =
       {''summary'', ''experience'', ''education'', ''skills'', ''projects'', ''certifications''}
   \<and> (sec \<in> {''summary'', ''experience'', ''education'', ''skills'', ''projects'', ''certifications''}
        \<and> (\<forall>l\<in>set (split_nl s). find_section (py_strip (py_lower l)) \<noteq> Some sec)
      \<longrightarrow> map_of (extract_sections s) sec = Some [])
   \<and> (\<exists>m. extract_text_sections s = Inr m
        \<and> map fst m =
            [''summary'', ''experience'', ''education'', ''skills'', ''projects'', ''certifications'']
        \<and> fst ` set m =
            {''summary'', ''experience'', ''education'', ''skills'', ''projects'', ''certifications''}
        \<and> (\<forall>sec\<in>{''summary'', ''experience'', ''education'', ''skills'', ''projects'',
                    ''certifications''}.
              re_search True (section_pattern sec) s = None \<longrightarrow> map_of m sec = Some []))"
proof (intro conjI impI)
  show keys: "map fst (extract_sections s) =
     [''education'', ''experience'', ''skills'', ''projects'', ''certifications'', ''summary'']"
    using extract_sections_keys [of s] by (simp add: section_names_def)
  have "fst ` set (extract_sections s) = set (map fst (extract_sections s))" by simp
  then show "fst ` set (extract_sections s) =
       {''summary'', ''experience'', ''education'', ''skills'', ''projects'', ''certifications''}"
    unfolding keys by auto
  show "map_of (extract_sections s) sec = Some []"
    if "sec \<in> {''summary'', ''experience'', ''education'', ''skills'', ''projects'', ''certifications''}
        \<and> (\<forall>l\<in>set (split_nl s). find_section (py_strip (py_lower l)) \<noteq> Some sec)"
    using that by (intro extract_sections_untouched) (auto simp: section_names_def)
  obtain m where m: "extract_text_sections s = Inr m" "map fst m = text_section_names"
    "\<forall>sec\<in>set text_section_names. map_of m sec =
          Some (case re_search True (section_pattern sec) s of
                  None \<Rightarrow> []
                | Some mt \<Rightarrow> py_strip (the (snd mt)))"
    using extract_text_sections_result [of s] by blast
  have "fst ` set m = set (map fst m)" by simp
  then have "fst ` set m =
      {''summary'', ''experience'', ''education'', ''skills'', ''projects'', ''certifications''}"
    unfolding m(2) by (auto simp: text_section_names_def)
  moreover have "\<forall>sec\<in>{''summary'', ''experience'', ''education'', ''skills'', ''projects'',
                    ''certifications''}.
              re_search True (section_pattern sec) s = None \<longrightarrow> map_of m sec = Some []"
    using m(3) by (auto simp: text_section_names_def)
  ultimately show "\<exists>m. extract_text_sections s = Inr m
        \<and> map fst m =
            [''summary'', ''experience'', ''education'', ''skills'', ''projects'', ''certifications'']
        \<and> fst ` set m =
            {''summary'', ''experience'', ''education'', ''skills'', ''projects'', ''certifications''}
        \<and> (\<forall>sec\<in>{''summary'', ''experience'', ''education'', ''skills'', ''projects'',
                    ''certifications''}.
              re_search True (section_pattern sec) s = None \<longrightarrow> map_of m sec = Some [])"
    using m(1,2) by (auto simp: text_section_names_def)
qed

theorem section_map_keys_witness:
  "map_of (extract_sections ''EDUCATION\<newline>BS Computer Science\<newline>SKILLS\<newline>Python, Go'')
     ''experience'' = Some []
   \<and> (\<exists>m. extract_text_sections ''Education: BSc'' = Inr m \<and> map_of m ''summary'' = Some [])"
proof (rule conjI)
  let ?s = "''EDUCATION\<newline>BS Computer Science\<newline>SKILLS\<newline>Python, Go''"
  have h: "\<forall>l\<in>set (split_nl ?s). find_section (py_strip (py_lower l)) \<noteq> Some ''experience''"
    by code_simp
  have mem: "''experience''
      \<in> {''summary'', ''experience'', ''education'', ''skills'', ''projects'', ''certifications''}"
    by simp
  have imp: "''experience''
        \<in> {''summary'', ''experience'', ''education'', ''skills'', ''projects'', ''certifications''}
      \<and> (\<forall>l\<in>set (split_nl ?s). find_section (py_strip (py_lower l)) \<noteq> Some ''experience'')
    \<longrightarrow> map_of (extract_sections ?s) ''experience'' = Some []"
    by (rule section_map_keys [of ?s "''experience''", THEN conjunct2, THEN conjunct2, THEN conjunct1])
  show "map_of (extract_sections ?s) ''experience'' = Some []"
    by (rule mp [OF imp conjI [OF mem h]])
next
  let ?t = "''Education: BSc''"
  let ?K = "{''summary'', ''experience'', ''education'', ''skills'', ''projects'', ''certifications''}"
  have none: "re_search True (section_pattern ''summary'') ?t = None"
    by code_simp
  have mem: "''summary'' \<in> ?K"
    by simp
  obtain m where m: "extract_text_sections ?t = Inr m
        \<and> map fst m =
            [''summary'', ''experience'', ''education'', ''skills'', ''projects'', ''certifications'']
        \<and> fst ` set m = ?K
        \<and> (\<forall>sec\<in>?K. re_search True (section_pattern sec) ?t = None \<longrightarrow> map_of m sec = Some [])"
    using section_map_keys [of ?t, THEN conjunct2, THEN conjunct2, THEN conjunct2] ..
  have a: "extract_text_sections ?t = Inr m"
    by (rule m [THEN conjunct1])
  have "\<forall>sec\<in>?K. re_search True (section_pattern sec) ?t = None \<longrightarrow> map_of m sec = Some []"
    by (rule m [THEN conjunct2, THEN conjunct2, THEN conjunct2])
  then have "re_search True (section_pattern ''summary'') ?t = None \<longrightarrow> map_of m ''summary'' = Some []"
    using mem by (rule bspec)
  then have b: "map_of m ''summary'' = Some []"
    using none by (rule mp)
  show "\<exists>m. extract_text_sections ?t = Inr m \<and> map_of m ''summary'' = Some []"
    by (rule exI [of _ m]) (rule conjI [OF a b])
qed

section \<open>What ends a captured section\<close>

text \<open>
  Claim C5, as stated: the lookahead of a section is the union of the synonym lists of all
  other sections plus the end of the text, so that a section's content stops at the first
  header synonym of any other section. In the text \<open>about a employment b\<close> the summary
  captured by the code runs over \<open>employment\<close>, a synonym of the experience section, where
  the extraction with the patterns of the claim stops before it.
\<close>

theorem lookahead_union_counterexample:
  "extract_text_sections ''about a employment b'' =
     Inr [(''summary'', ''a employment b''), (''experience'', ''b''), (''education'', []),
          (''skills'', []), (''projects'', []), (''certifications'', [])]
   \<and> spec_extract_text_sections ''about a employment b'' =
     Inr [(''summary'', ''a''), (''experience'', ''b''), (''education'', []),
          (''skills'', []), (''projects'', []), (''certifications'', [])]"
  by code_simp

text \<open>
  Claim C5, amended. The pattern of each of the six sections is its header alternation, the
  lazy capture \<open>(.*?)\<close> and what ends the capture: a lookahead whose alternation lists only
  the headers \<open>professional\s+experience\<close>, \<open>education\<close>, \<open>skills\<close>, \<open>projects\<close> and
  \<open>certification\<close> of the sections that come later in the order summary, experience,
  education, skills, projects, certifications, plus the end of the text; for certifications,
  the end of the text alone. The extraction never raises. The value of a section is the
  stripped text between the first match of its header (the leftmost position where the
  header matches) and the first position from there on where what ends its capture matches;
  other synonyms and the headers of earlier sections do not end it. If the header of a
  section matches nowhere, its value is the empty string.
\<close>

theorem anchored_capture:
  "(sec \<in> set text_section_names \<longrightarrow>
      map_of section_patterns sec
        = Some (Cat (section_header sec) (Cat (Group AnyLazy) (section_stop sec))))
   \<and> section_stop ''summary'' =
       Ahead (alts [phrase ''professional'' ''experience'', Lit ''education'', Lit ''skills'',
                    Lit ''projects'', Lit ''certification'', Eos])
   \<and> section_stop ''experience'' =
       Ahead (alts [Lit ''education'', Lit ''skills'', Lit ''projects'', Lit ''certification'', Eos])
   \<and> section_stop ''education'' = Ahead (alts [Lit ''skills'', Lit ''projects'', Lit ''certification'', Eos])
   \<and> section_stop ''skills'' = Ahead (alts [Lit ''projects'', Lit ''certification'', Eos])
   \<and> section_stop ''projects'' = Ahead (alts [Lit ''certification'', Eos])
   \<and> section_stop ''certifications'' = Eos
   \<and> (\<exists>m. extract_text_sections doc = Inr m)
   \<and> (sec \<in> set text_section_names \<and> extract_text_sections (pre @ u) = Inr m
        \<and> (\<forall>v\<in>set (tails pre). v \<noteq> [] \<longrightarrow> header_at sec (v @ u) = [])
        \<and> header_at sec u = (cap @ t) # others
        \<and> stops_at sec t
        \<and> (\<forall>v\<in>set (tails cap). v \<noteq> [] \<longrightarrow> \<not> stops_at sec (v @ t))
      \<longrightarrow> map_of m sec = Some (py_strip cap))
   \<and> (sec \<in> set text_section_names \<and> extract_text_sections doc = Inr m
        \<and> (\<forall>v\<in>set (tails doc). header_at sec v = [])
      \<longrightarrow> map_of m sec = Some [])"
proof (intro conjI impI)
  show "map_of section_patterns sec
        = Some (Cat (section_header sec) (Cat (Group AnyLazy) (section_stop sec)))"
    if "sec \<in> set text_section_names"
    using map_of_section_patterns [OF that] by (simp add: section_pattern_def)
  show "section_stop ''summary'' =
       Ahead (alts [phrase ''professional'' ''experience'', Lit ''education'', Lit ''skills'',
                    Lit ''projects'', Lit ''certification'', Eos])"
    by (simp add: section_stop_def)
  show "section_stop ''experience'' =
       Ahead (alts [Lit ''education'', Lit ''skills'', Lit ''projects'', Lit ''certification'', Eos])"
    by (simp add: section_stop_def)
  show "section_stop ''education'' = Ahead (alts [Lit ''skills'', Lit ''projects'', Lit ''certification'', Eos])"
    by (simp add: section_stop_def)
  show "section_stop ''skills'' = Ahead (alts [Lit ''projects'', Lit ''certification'', Eos])"
    by (simp add: section_stop_def)
  show "section_stop ''projects'' = Ahead (alts [Lit ''certification'', Eos])"
    by (simp add: section_stop_def)
  show "section_stop ''certifications'' = Eos"
    by (simp add: section_stop_def)
  show "\<exists>m. extract_text_sections doc = Inr m"
    using extract_text_sections_result [of doc] by blast
  show "map_of m sec = Some (py_strip cap)"
    if h: "sec \<in> set text_section_names \<and> extract_text_sections (pre @ u) = Inr m
        \<and> (\<forall>v\<in>set (tails pre). v \<noteq> [] \<longrightarrow> header_at sec (v @ u) = [])
        \<and> header_at sec u = (cap @ t) # others
        \<and> stops_at sec t
        \<and> (\<forall>v\<in>set (tails cap). v \<noteq> [] \<longrightarrow> \<not> stops_at sec (v @ t))"
  proof -
    have "re_search True (section_pattern sec) (pre @ u)
        = Some (take (length u - length t) u, Some cap)"
      using h by (intro pattern_capture [where others = others]) simp_all
    moreover obtain m' where "extract_text_sections (pre @ u) = Inr m'"
      and "\<forall>sec\<in>set text_section_names. map_of m' sec =
          Some (case re_search True (section_pattern sec) (pre @ u) of
                  None \<Rightarrow> []
                | Some mt \<Rightarrow> py_strip (the (snd mt)))"
      using extract_text_sections_result [of "pre @ u"] by blast
    ultimately show ?thesis using h by (auto simp del: re_search.simps)
  qed
  show "map_of m sec = Some []"
    if h: "sec \<in> set text_section_names \<and> extract_text_sections doc = Inr m
        \<and> (\<forall>v\<in>set (tails doc). header_at sec v = [])"
  proof -
    have "re_search True (section_pattern sec) doc = None"
      using h by (intro pattern_absent) simp
    moreover obtain m' where "extract_text_sections doc = Inr m'"
      and "\<forall>sec\<in>set text_section_names. map_of m' sec =
          Some (case re_search True (section_pattern sec) doc of
                  None \<Rightarrow> []
                | Some mt \<Rightarrow> py_strip (the (snd mt)))"
      using extract_text_sections_result [of doc] by blast
    ultimately show ?thesis using h by (auto simp del: re_search.simps)
  qed
qed

theorem anchored_capture_witness:
  "\<exists>m. extract_text_sections ''Hi. About a employment b skills c'' = Inr m
     \<and> map_of m ''summary'' = Some ''a employment b''"
proof -
  let ?pre = "''Hi. ''" and ?u = "''About a employment b skills c''"
  let ?cap = "'' a employment b ''" and ?t = "''skills c''"
  have "\<exists>m. extract_text_sections (?pre @ ?u) = Inr m"
    by (rule anchored_capture [where doc = "?pre @ ?u", THEN conjunct2, THEN conjunct2,
          THEN conjunct2, THEN conjunct2, THEN conjunct2, THEN conjunct2, THEN conjunct2,
          THEN conjunct1])
  then obtain m where m: "extract_text_sections (?pre @ ?u) = Inr m" ..
  have sec: "''summary'' \<in> set text_section_names"
    by code_simp
  have before: "\<forall>v\<in>set (tails ?pre). v \<noteq> [] \<longrightarrow> header_at ''summary'' (v @ ?u) = []"
    by code_simp
  have here: "header_at ''summary'' ?u = (?cap @ ?t) # []"
    by code_simp
  have stop: "stops_at ''summary'' ?t"
    by code_simp
  have earlier: "\<forall>v\<in>set (tails ?cap). v \<noteq> [] \<longrightarrow> \<not> stops_at ''summary'' (v @ ?t)"
    by code_simp
  have strip: "py_strip ?cap = ''a employment b''"
    by code_simp
  have "''summary'' \<in> set text_section_names \<and> extract_text_sections (?pre @ ?u) = Inr m
        \<and> (\<forall>v\<in>set (tails ?pre). v \<noteq> [] \<longrightarrow> header_at ''summary'' (v @ ?u) = [])
        \<and> header_at ''summary'' ?u = (?cap @ ?t) # []
        \<and> stops_at ''summary'' ?t
        \<and> (\<forall>v\<in>set (tails ?cap). v \<noteq> [] \<longrightarrow> \<not> stops_at ''summary'' (v @ ?t))
      \<longrightarrow> map_of m ''summary'' = Some (py_strip ?cap)"
    by (rule anchored_capture [where sec = "''summary''" and pre = ?pre and u = ?u and m = m
          and cap = ?cap and t = ?t and others = "[]", THEN conjunct2, THEN conjunct2,
          THEN conjunct2, THEN conjunct2, THEN conjunct2, THEN conjunct2, THEN conjunct2,
          THEN conjunct2, THEN conjunct1])
  then have "map_of m ''summary'' = Some (py_strip ?cap)"
    by (rule mp) (intro conjI sec m before here stop earlier)
  then have v: "map_of m ''summary'' = Some ''a employment b''"
    unfolding strip .
  have "?pre @ ?u = ''Hi. About a employment b skills c''"
    by simp
  then have "extract_text_sections ''Hi. About a employment b skills c'' = Inr m"
    using m by simp
  then show ?thesis
    using v by (intro exI [of _ m] conjI)
qed

section \<open>Boundaries, content and blank lines\<close>

lemma py_strip_Nil_iff: "py_strip s = [] \<longleftrightarrow> (\<forall>c\<in>set s. py_isspace c)"
proof
  assume "py_strip s = []"
  then have all: "\<forall>c\<in>set (dropWhile py_isspace s). py_isspace c"
    by (simp add: py_strip_def py_rstrip_def py_lstrip_def dropWhile_eq_Nil_conv)
  have "dropWhile py_isspace s = []"
  proof (rule ccontr)
    assume ne: "dropWhile py_isspace s \<noteq> []"
    then have "\<not> py_isspace (hd (dropWhile py_isspace s))" by (rule hd_dropWhile)
    moreover have "hd (dropWhile py_isspace s) \<in> set (dropWhile py_isspace s)"
      using ne by (rule hd_in_set)
    ultimately show False using all by blast
  qed
  then show "\<forall>c\<in>set s. py_isspace c"
    by (simp add: dropWhile_eq_Nil_conv)
next
  assume "\<forall>c\<in>set s. py_isspace c"
  then have d: "dropWhile py_isspace s = []"
    by (simp add: dropWhile_eq_Nil_conv)
  show "py_strip s = []"
    unfolding py_strip_def py_rstrip_def py_lstrip_def d by simp
qed

lemma extract_sections_no_boundary:
  "(k, v) \<in> set (extract_sections s) \<Longrightarrow> l \<in> set (split_nl v) \<Longrightarrow> \<not> is_boundary l"
  using joined_content_lines(1) [OF extract_sections_values] by blast

lemma extract_sections_no_blank:
  "(k, v) \<in> set (extract_sections s) \<Longrightarrow> v \<noteq> [] \<Longrightarrow> l \<in> set (split_nl v) \<Longrightarrow> \<not> is_blank l"
  using joined_content_lines(2) [OF extract_sections_values] by blast

text \<open>
  Claim C6. A line is a boundary exactly when its lower-cased, stripped form is shorter than
  50 characters and contains a keyword of some section. At a boundary the section found
  becomes active with an empty accumulator and the line is not added; the lines accumulated
  so far, when there are any, are stored newline-joined under the section that was active
  (with none accumulated the map stays as it is). In the result no line of any section's
  value is a boundary line; lines before the first boundary have no effect on the result;
  and a boundary line followed by two content lines gives those two lines, joined by one
  newline, under the section of the boundary, every other section being empty.
\<close>

theorem boundary_lines:
  "(is_boundary line \<longleftrightarrow>
      length (py_strip (py_lower line)) < 50
      \<and> (\<exists>(section, keywords)\<in>set section_keywords.
           \<exists>keyword\<in>set keywords. sublist keyword (py_strip (py_lower line))))
   \<and> (is_boundary line \<longleftrightarrow> (\<exists>sec. find_section (py_strip (py_lower line)) = Some sec))
   \<and> (find_section (py_strip (py_lower line)) = Some sec \<longrightarrow>
        scan_line st line =
          \<lparr>sections = save_section st, current_section = Some sec, section_content = []\<rparr>)
   \<and> (current_section st = Some cur \<and> cur \<noteq> [] \<and> section_content st \<noteq> [] \<longrightarrow>
        save_section st = AList.update cur (join_nl (section_content st)) (sections st))
   \<and> (section_content st = [] \<longrightarrow> save_section st = sections st)
   \<and> ((k, v) \<in> set (extract_sections s) \<and> l \<in> set (split_nl v) \<longrightarrow> \<not> is_boundary l)
   \<and> ((\<forall>l\<in>set (split_nl p). \<not> is_boundary l) \<longrightarrow>
        extract_sections (p @ CHR ''\<newline>'' # rest) = extract_sections rest)
   \<and> (find_section (py_strip (py_lower b)) = Some sec \<and> CHR ''\<newline>'' \<notin> set b
        \<and> content_line l1 \<and> content_line l2 \<longrightarrow>
        extract_sections (b @ CHR ''\<newline>'' # l1 @ CHR ''\<newline>'' # l2)
          = AList.update sec (l1 @ CHR ''\<newline>'' # l2) empty_sections
        \<and> map_of (extract_sections (b @ CHR ''\<newline>'' # l1 @ CHR ''\<newline>'' # l2)) sec
          = Some (l1 @ CHR ''\<newline>'' # l2))"
proof (intro conjI impI)
  show "is_boundary line \<longleftrightarrow>
      length (py_strip (py_lower line)) < 50
      \<and> (\<exists>(section, keywords)\<in>set section_keywords.
           \<exists>keyword\<in>set keywords. sublist keyword (py_strip (py_lower line)))"
    by (rule is_boundary_iff)
  show "is_boundary line \<longleftrightarrow> (\<exists>sec. find_section (py_strip (py_lower line)) = Some sec)"
    by (simp add: is_boundary_def)
  show "scan_line st line =
          \<lparr>sections = save_section st, current_section = Some sec, section_content = []\<rparr>"
    if "find_section (py_strip (py_lower line)) = Some sec"
    using that by (rule scan_line_boundary)
  show "save_section st = AList.update cur (join_nl (section_content st)) (sections st)"
    if "current_section st = Some cur \<and> cur \<noteq> [] \<and> section_content st \<noteq> []"
    using that by (intro save_section_commit) simp_all
  show "save_section st = sections st" if "section_content st = []"
    using that by (intro save_section_nothing) simp
  show "\<not> is_boundary l" if "(k, v) \<in> set (extract_sections s) \<and> l \<in> set (split_nl v)"
    using that extract_sections_no_boundary by blast
  show "extract_sections (p @ CHR ''\<newline>'' # rest) = extract_sections rest"
    if "\<forall>l\<in>set (split_nl p). \<not> is_boundary l"
    using that by (rule extract_sections_discard)
  assume h: "find_section (py_strip (py_lower b)) = Some sec \<and> CHR ''\<newline>'' \<notin> set b
        \<and> content_line l1 \<and> content_line l2"
  then show two: "extract_sections (b @ CHR ''\<newline>'' # l1 @ CHR ''\<newline>'' # l2)
          = AList.update sec (l1 @ CHR ''\<newline>'' # l2) empty_sections"
    by (intro extract_two_lines) simp_all
  have "sec \<in> set section_names"
    using h find_section_in_names by blast
  then show "map_of (extract_sections (b @ CHR ''\<newline>'' # l1 @ CHR ''\<newline>'' # l2)) sec
          = Some (l1 @ CHR ''\<newline>'' # l2)"
    unfolding two by (rule map_of_update_names)
qed

theorem boundary_lines_witness:
  "map_of (extract_sections (''EDUCATION'' @ CHR ''\<newline>'' # ''BS Computer Science'' @ CHR ''\<newline>'' # ''MIT 2020''))
      ''education''
     = Some (''BS Computer Science'' @ CHR ''\<newline>'' # ''MIT 2020'')
   \<and> extract_sections (''John Doe\<newline>john@x.com'' @ CHR ''\<newline>'' # ''SKILLS\<newline>Python'')
     = extract_sections ''SKILLS\<newline>Python''"
proof (rule conjI)
  let ?b = "''EDUCATION''" and ?l1 = "''BS Computer Science''" and ?l2 = "''MIT 2020''"
  have b: "find_section (py_strip (py_lower ?b)) = Some ''education''"
    by code_simp
  have nl: "CHR ''\<newline>'' \<notin> set ?b"
    by code_simp
  have l1: "content_line ?l1"
    by code_simp
  have l2: "content_line ?l2"
    by code_simp
  have "find_section (py_strip (py_lower ?b)) = Some ''education'' \<and> CHR ''\<newline>'' \<notin> set ?b
        \<and> content_line ?l1 \<and> content_line ?l2 \<longrightarrow>
        extract_sections (?b @ CHR ''\<newline>'' # ?l1 @ CHR ''\<newline>'' # ?l2)
          = AList.update ''education'' (?l1 @ CHR ''\<newline>'' # ?l2) empty_sections
        \<and> map_of (extract_sections (?b @ CHR ''\<newline>'' # ?l1 @ CHR ''\<newline>'' # ?l2)) ''education''
          = Some (?l1 @ CHR ''\<newline>'' # ?l2)"
    by (rule boundary_lines [where b = ?b and sec = "''education''" and ?l1.0 = ?l1 and ?l2.0 = ?l2,
          THEN conjunct2, THEN conjunct2, THEN conjunct2, THEN conjunct2, THEN conjunct2,
          THEN conjunct2, THEN conjunct2])
  then have "extract_sections (?b @ CHR ''\<newline>'' # ?l1 @ CHR ''\<newline>'' # ?l2)
          = AList.update ''education'' (?l1 @ CHR ''\<newline>'' # ?l2) empty_sections
        \<and> map_of (extract_sections (?b @ CHR ''\<newline>'' # ?l1 @ CHR ''\<newline>'' # ?l2)) ''education''
          = Some (?l1 @ CHR ''\<newline>'' # ?l2)"
    by (rule mp) (intro conjI b nl l1 l2)
  then show "map_of (extract_sections (?b @ CHR ''\<newline>'' # ?l1 @ CHR ''\<newline>'' # ?l2)) ''education''
          = Some (?l1 @ CHR ''\<newline>'' # ?l2)"
    by (rule conjunct2)
next
  let ?p = "''John Doe\<newline>john@x.com''" and ?rest = "''SKILLS\<newline>Python''"
  have p: "\<forall>l\<in>set (split_nl ?p). \<not> is_boundary l"
    by code_simp
  have "(\<forall>l\<in>set (split_nl ?p). \<not> is_boundary l) \<longrightarrow>
        extract_sections (?p @ CHR ''\<newline>'' # ?rest) = extract_sections ?rest"
    by (rule boundary_lines [where p = ?p and rest = ?rest,
          THEN conjunct2, THEN conjunct2, THEN conjunct2, THEN conjunct2, THEN conjunct2,
          THEN conjunct2, THEN conjunct1])
  then show "extract_sections (?p @ CHR ''\<newline>'' # ?rest) = extract_sections ?rest"
    using p by (rule mp)
qed

text \<open>
  Claim C10. A line that is empty or all whitespace is blank; the loop leaves its state as
  it is on a blank line, so the result is that of the text without its blank lines. No line
  of a non-empty section value is blank. A boundary line, a content line, any number of
  blank lines and a second content line give the two content lines joined by a single
  newline under the section of the boundary.
\<close>

theorem blank_lines_skipped:
  "(is_blank line \<longleftrightarrow> (\<forall>c\<in>set line. py_isspace c))
   \<and> (is_blank line \<longrightarrow> scan_line st line = st)
   \<and> foldl scan_line st (filter (\<lambda>l. \<not> is_blank l) ls) = foldl scan_line st ls
   \<and> ((k, v) \<in> set (extract_sections s) \<and> v \<noteq> [] \<and> l \<in> set (split_nl v) \<longrightarrow> \<not> is_blank l)
   \<and> (find_section (py_strip (py_lower b)) = Some sec \<and> CHR ''\<newline>'' \<notin> set b
        \<and> content_line l1 \<and> content_line l2
        \<and> (\<forall>x\<in>set blanks. is_blank x \<and> CHR ''\<newline>'' \<notin> set x) \<longrightarrow>
        extract_sections (join_nl ([b, l1] @ blanks @ [l2]))
          = AList.update sec (l1 @ CHR ''\<newline>'' # l2) empty_sections
        \<and> map_of (extract_sections (join_nl ([b, l1] @ blanks @ [l2]))) sec
          = Some (l1 @ CHR ''\<newline>'' # l2))"
proof (intro conjI impI)
  show "is_blank line \<longleftrightarrow> (\<forall>c\<in>set line. py_isspace c)"
    unfolding is_blank_def by (rule py_strip_Nil_iff)
  show "scan_line st line = st" if "is_blank line"
    using that by (rule scan_line_blank)
  show "foldl scan_line st (filter (\<lambda>l. \<not> is_blank l) ls) = foldl scan_line st ls"
    by (rule foldl_scan_skip_blank)
  show "\<not> is_blank l"
    if "(k, v) \<in> set (extract_sections s) \<and> v \<noteq> [] \<and> l \<in> set (split_nl v)"
    using that extract_sections_no_blank by blast
  assume h: "find_section (py_strip (py_lower b)) = Some sec \<and> CHR ''\<newline>'' \<notin> set b
        \<and> content_line l1 \<and> content_line l2
        \<and> (\<forall>x\<in>set blanks. is_blank x \<and> CHR ''\<newline>'' \<notin> set x)"
  then show across: "extract_sections (join_nl ([b, l1] @ blanks @ [l2]))
          = AList.update sec (l1 @ CHR ''\<newline>'' # l2) empty_sections"
    by (intro extract_across_blanks) simp_all
  have "sec \<in> set section_names"
    using h find_section_in_names by blast
  then show "map_of (extract_sections (join_nl ([b, l1] @ blanks @ [l2]))) sec
          = Some (l1 @ CHR ''\<newline>'' # l2)"
    unfolding across by (rule map_of_update_names)
qed

theorem blank_lines_skipped_witness:
  "join_nl ([''SKILLS'', ''Python''] @ ['''', ''  ''] @ [''Go'']) = ''SKILLS\<newline>Python\<newline>\<newline>  \<newline>Go''
   \<and> map_of (extract_sections (join_nl ([''SKILLS'', ''Python''] @ ['''', ''  ''] @ [''Go''])))
       ''skills''
     = Some (''Python'' @ CHR ''\<newline>'' # ''Go'')"
proof (rule conjI)
  show "join_nl ([''SKILLS'', ''Python''] @ ['''', ''  ''] @ [''Go'']) = ''SKILLS\<newline>Python\<newline>\<newline>  \<newline>Go''"
    by code_simp
next
  let ?b = "''SKILLS''" and ?l1 = "''Python''" and ?l2 = "''Go''" and ?blanks = "['''', ''  '']"
  have b: "find_section (py_strip (py_lower ?b)) = Some ''skills''"
    by code_simp
  have nl: "CHR ''\<newline>'' \<notin> set ?b"
    by code_simp
  have l1: "content_line ?l1"
    by code_simp
  have l2: "content_line ?l2"
    by code_simp
  have blanks: "\<forall>x\<in>set ?blanks. is_blank x \<and> CHR ''\<newline>'' \<notin> set x"
    by code_simp
  have "find_section (py_strip (py_lower ?b)) = Some ''skills'' \<and> CHR ''\<newline>'' \<notin> set ?b
        \<and> content_line ?l1 \<and> content_line ?l2
        \<and> (\<forall>x\<in>set ?blanks. is_blank x \<and> CHR ''\<newline>'' \<notin> set x) \<longrightarrow>
        extract_sections (join_nl ([?b, ?l1] @ ?blanks @ [?l2]))
          = AList.update ''skills'' (?l1 @ CHR ''\<newline>'' # ?l2) empty_sections
        \<and> map_of (extract_sections (join_nl ([?b, ?l1] @ ?blanks @ [?l2]))) ''skills''
          = Some (?l1 @ CHR ''\<newline>'' # ?l2)"
    by (rule blank_lines_skipped [where b = ?b and sec = "''skills''" and ?l1.0 = ?l1
          and ?l2.0 = ?l2 and blanks = ?blanks,
          THEN conjunct2, THEN conjunct2, THEN conjunct2, THEN conjunct2])
  then have "extract_sections (join_nl ([?b, ?l1] @ ?blanks @ [?l2]))
          = AList.update ''skills'' (?l1 @ CHR ''\<newline>'' # ?l2) empty_sections
        \<and> map_of (extract_sections (join_nl ([?b, ?l1] @ ?blanks @ [?l2]))) ''skills''
          = Some (?l1 @ CHR ''\<newline>'' # ?l2)"
    by (rule mp) (intro conjI b nl l1 l2 blanks)
  then show "map_of (extract_sections (join_nl ([?b, ?l1] @ ?blanks @ [?l2]))) ''skills''
          = Some (?l1 @ CHR ''\<newline>'' # ?l2)"
    by (rule conjunct2)
qed

end
